theory Spec2Isabelle
  imports Complex_Main "HOL-Library.Multiset"
begin

section \<open>JavaScript numbers\<close>

text \<open>
  A JavaScript number is an IEEE-754 binary64 value. The finite ones are modelled as the
  reals they denote, and every arithmetic operator rounds its exact result to the nearest
  binary64 value, ties to even (\<open>rnd\<close>). The two signed zeros are identified (they are
  equal under \<open>===\<close>). Infinities and NaN are separate values of the type \<open>number\<close>;
  they appear where the scheduler divides by a duration of zero.
\<close>

definition round_half_even :: "real \<Rightarrow> int" where
  "round_half_even q =
     (let f = \<lfloor>q\<rfloor>; d = q - of_int f
      in if d < 1 / 2 then f else if 1 / 2 < d then f + 1 else if even f then f else f + 1)"

text \<open>The exponent of the unit in the last place: 53 significant bits, gradual underflow
  below \<open>2 ^ -1022\<close>.\<close>

definition ulp_exp :: "real \<Rightarrow> int" where
  "ulp_exp x = max \<lfloor>log 2 \<bar>x\<bar>\<rfloor> (- 1022) - 52"

definition rnd :: "real \<Rightarrow> real" where
  "rnd x = (if x = 0 then 0
            else of_int (round_half_even (x / 2 powi ulp_exp x)) * 2 powi ulp_exp x)"

datatype number = Fin real | PosInf | NegInf | NaN

definition to_number :: "real \<Rightarrow> number" where
  "to_number x = (let r = rnd x
                  in if 2 ^ 1024 \<le> r then PosInf else if r \<le> - (2 ^ 1024) then NegInf else Fin r)"

text \<open>The operator \<open>/\<close> on numbers.\<close>

fun js_div :: "number \<Rightarrow> number \<Rightarrow> number" where
  "js_div NaN _ = NaN"
| "js_div _ NaN = NaN"
| "js_div (Fin a) (Fin b) =
     (if b = 0 then (if a = 0 then NaN else if 0 < a then PosInf else NegInf)
      else to_number (a / b))"
| "js_div (Fin a) PosInf = Fin 0"
| "js_div (Fin a) NegInf = Fin 0"
| "js_div PosInf (Fin b) = (if 0 \<le> b then PosInf else NegInf)"
| "js_div NegInf (Fin b) = (if 0 \<le> b then NegInf else PosInf)"
| "js_div PosInf PosInf = NaN"
| "js_div PosInf NegInf = NaN"
| "js_div NegInf PosInf = NaN"
| "js_div NegInf NegInf = NaN"

text \<open>\<open>Math.min\<close> of two numbers: NaN if either is NaN.\<close>

fun math_min :: "number \<Rightarrow> number \<Rightarrow> number" where
  "math_min NaN _ = NaN"
| "math_min _ NaN = NaN"
| "math_min NegInf _ = NegInf"
| "math_min _ NegInf = NegInf"
| "math_min PosInf y = y"
| "math_min x PosInf = x"
| "math_min (Fin a) (Fin b) = Fin (min a b)"

text \<open>The comparison \<open>>=\<close>: false whenever an operand is NaN.\<close>

fun js_ge :: "number \<Rightarrow> number \<Rightarrow> bool" where
  "js_ge NaN _ = False"
| "js_ge _ NaN = False"
| "js_ge PosInf _ = True"
| "js_ge _ NegInf = True"
| "js_ge NegInf _ = False"
| "js_ge _ PosInf = False"
| "js_ge (Fin a) (Fin b) = (b \<le> a)"

section \<open>The animation manager (src/js/animations.js)\<close>

text \<open>
  An animation object carries its own identity \<open>aid\<close> (the address of the object that
  the handle returned by \<open>add\<close> closes over). Its two callbacks act on the state \<open>'w\<close> of
  the scene; they are taken not to call back into the manager. Times are the integer
  milliseconds of \<open>Date.now()\<close>.
\<close>

record 'w animation =
  aid :: nat
  startTime :: int
  duration :: number
  updateFn :: "number \<Rightarrow> int \<Rightarrow> 'w \<Rightarrow> 'w"
  onComplete :: "('w \<Rightarrow> 'w) option"
  cancelled :: bool

text \<open>Every invocation of a callback is recorded, to count them.\<close>

datatype call = UpdateCall nat number int | CompleteCall nat

fun call_id :: "call \<Rightarrow> nat" where
  "call_id (UpdateCall i _ _) = i"
| "call_id (CompleteCall i) = i"

text \<open>
  The fields \<open>activeAnimations\<close>, \<open>isRunning\<close> and \<open>animationId\<close> are those of the
  class. The rest is the environment: the frame requests the browser holds
  (\<open>pendingFrames\<close>) and the last request handle it issued (\<open>frameCounter\<close>), the next
  object identity (\<open>nextObj\<close>), the record of callback invocations (\<open>calls\<close>) and the
  scene state the callbacks act on (\<open>world\<close>).
\<close>

record 'w manager =
  activeAnimations :: "'w animation list"
  isRunning :: bool
  animationId :: "nat option"
  pendingFrames :: "nat list"
  frameCounter :: nat
  nextObj :: nat
  calls :: "call list"
  world :: 'w

definition constructor :: "'w \<Rightarrow> 'w manager" where
  "constructor w =
     \<lparr>activeAnimations = [], isRunning = False, animationId = None,
      pendingFrames = [], frameCounter = 0, nextObj = 0, calls = [], world = w\<rparr>"

text \<open>\<open>Math.min(elapsed / animation.duration, 1)\<close>\<close>

definition progress_at :: "int \<Rightarrow> 'w animation \<Rightarrow> number" where
  "progress_at now a =
     math_min (js_div (Fin (of_int (now - startTime a))) (duration a)) (Fin 1)"

text \<open>The callback given to \<open>filter\<close> in \<open>update\<close>: its result says whether the
  animation stays in the list.\<close>

definition visit :: "int \<Rightarrow> 'w animation \<Rightarrow> call list \<times> 'w \<Rightarrow> bool \<times> call list \<times> 'w" where
  "visit now a s =
     (if cancelled a then (False, s)
      else
        let elapsed = now - startTime a;
            progress = progress_at now a;
            s1 = (fst s @ [UpdateCall (aid a) progress elapsed],
                  updateFn a progress elapsed (snd s))
        in if js_ge progress (Fin 1)
           then (False,
                 (case onComplete a of
                    None \<Rightarrow> s1
                  | Some f \<Rightarrow> (fst s1 @ [CompleteCall (aid a)], f (snd s1))))
           else (True, s1))"

fun filter_animations ::
  "int \<Rightarrow> 'w animation list \<Rightarrow> call list \<times> 'w \<Rightarrow> 'w animation list \<times> call list \<times> 'w" where
  "filter_animations now [] s = ([], s)"
| "filter_animations now (a # as) s =
     (let (keep, s1) = visit now a s;
          (kept, s2) = filter_animations now as s1
      in (if keep then a # kept else kept, s2))"

text \<open>\<open>requestAnimationFrame\<close>: the browser issues the next handle and holds the request.\<close>

definition requestAnimationFrame :: "'w manager \<Rightarrow> nat \<times> 'w manager" where
  "requestAnimationFrame m =
     (let h = Suc (frameCounter m)
      in (h, m\<lparr>frameCounter := h, pendingFrames := pendingFrames m @ [h]\<rparr>))"

definition cancelAnimationFrame :: "nat \<Rightarrow> 'w manager \<Rightarrow> 'w manager" where
  "cancelAnimationFrame h m = m\<lparr>pendingFrames := removeAll h (pendingFrames m)\<rparr>"

text \<open>\<open>update()\<close>, with the reading of \<open>Date.now()\<close> it makes.\<close>

definition update :: "int \<Rightarrow> 'w manager \<Rightarrow> 'w manager" where
  "update now m =
     (let (kept, cs, w) = filter_animations now (activeAnimations m) (calls m, world m);
          m1 = m\<lparr>activeAnimations := kept, calls := cs, world := w\<rparr>
      in if 0 < length kept
         then (let (h, m2) = requestAnimationFrame m1 in m2\<lparr>animationId := Some h\<rparr>)
         else m1\<lparr>isRunning := False, animationId := None\<rparr>)"

definition start :: "int \<Rightarrow> 'w manager \<Rightarrow> 'w manager" where
  "start now m = (if isRunning m then m else update now (m\<lparr>isRunning := True\<rparr>))"

text \<open>
  \<open>add(updateFn, duration, onComplete)\<close>. \<open>t_add\<close> is the reading of \<open>Date.now()\<close>
  stored as \<open>startTime\<close>; \<open>t_tick\<close> is the reading \<open>update\<close> makes if \<open>add\<close> starts the
  loop. The handle returned is the identity of the animation, which is all that
  \<open>cancel\<close> uses.
\<close>

definition add ::
  "(number \<Rightarrow> int \<Rightarrow> 'w \<Rightarrow> 'w) \<Rightarrow> number \<Rightarrow> ('w \<Rightarrow> 'w) option \<Rightarrow> int \<Rightarrow> int \<Rightarrow> 'w manager
     \<Rightarrow> nat \<times> 'w manager" where
  "add upd dur oc t_add t_tick m =
     (let animation = \<lparr>aid = nextObj m, startTime = t_add, duration = dur, updateFn = upd,
                        onComplete = oc, cancelled = False\<rparr>;
          m1 = m\<lparr>activeAnimations := activeAnimations m @ [animation],
                 nextObj := Suc (nextObj m)\<rparr>;
          m2 = (if \<not> isRunning m1 then start t_tick m1 else m1)
      in (aid animation, m2))"

text \<open>The handle's \<open>cancel()\<close>: sets the flag of the animation object it closes over.\<close>

definition cancel :: "nat \<Rightarrow> 'w manager \<Rightarrow> 'w manager" where
  "cancel h m =
     m\<lparr>activeAnimations :=
         map (\<lambda>a. if aid a = h then a\<lparr>cancelled := True\<rparr> else a) (activeAnimations m)\<rparr>"

definition stopAll :: "'w manager \<Rightarrow> 'w manager" where
  "stopAll m =
     (let m1 = m\<lparr>activeAnimations := []\<rparr>;
          m2 = (case animationId m1 of
                  None \<Rightarrow> m1
                | Some h \<Rightarrow> if h = 0 then m1
                            else (cancelAnimationFrame h m1)\<lparr>animationId := None\<rparr>)
      in m2\<lparr>isRunning := False\<rparr>)"

text \<open>The browser runs the oldest pending frame request: the callback
  \<open>() => this.update()\<close>.\<close>

definition frame :: "int \<Rightarrow> 'w manager \<Rightarrow> 'w manager" where
  "frame now m =
     (case pendingFrames m of
        [] \<Rightarrow> m
      | h # hs \<Rightarrow> update now (m\<lparr>pendingFrames := hs\<rparr>))"

text \<open>What a client and the browser can do to the manager, and runs of such steps.\<close>

datatype 'w step =
    Add "number \<Rightarrow> int \<Rightarrow> 'w \<Rightarrow> 'w" number "('w \<Rightarrow> 'w) option" int int
  | Cancel nat
  | Frame int
  | StopAll

fun do_step :: "'w step \<Rightarrow> 'w manager \<Rightarrow> 'w manager" where
  "do_step (Add upd dur oc t_add t_tick) m = snd (add upd dur oc t_add t_tick m)"
| "do_step (Cancel h) m = cancel h m"
| "do_step (Frame now) m = frame now m"
| "do_step StopAll m = stopAll m"

fun run :: "'w step list \<Rightarrow> 'w manager \<Rightarrow> 'w manager" where
  "run [] m = m"
| "run (s # ss) m = run ss (do_step s m)"

text \<open>What one visit contributes: whether the animation stays, the calls it makes and
  its effect on the scene. They characterise \<open>visit\<close> and \<open>filter_animations\<close>.\<close>

definition stays :: "int \<Rightarrow> 'w animation \<Rightarrow> bool" where
  "stays now a = (\<not> cancelled a \<and> \<not> js_ge (progress_at now a) (Fin 1))"

definition visit_calls :: "int \<Rightarrow> 'w animation \<Rightarrow> call list" where
  "visit_calls now a =
     (if cancelled a then []
      else UpdateCall (aid a) (progress_at now a) (now - startTime a) #
           (if js_ge (progress_at now a) (Fin 1) \<and> onComplete a \<noteq> None
            then [CompleteCall (aid a)] else []))"

definition visit_world :: "int \<Rightarrow> 'w animation \<Rightarrow> 'w \<Rightarrow> 'w" where
  "visit_world now a w =
     (if cancelled a then w
      else let w1 = updateFn a (progress_at now a) (now - startTime a) w
           in if js_ge (progress_at now a) (Fin 1)
              then (case onComplete a of None \<Rightarrow> w1 | Some f \<Rightarrow> f w1)
              else w1)"

definition calls_of :: "nat \<Rightarrow> call list \<Rightarrow> call list" where
  "calls_of i cs = filter (\<lambda>c. call_id c = i) cs"

definition silent :: "nat \<Rightarrow> 'w manager \<Rightarrow> bool" where
  "silent i m = (i < nextObj m \<and> (\<forall>a \<in> set (activeAnimations m). aid a = i \<longrightarrow> cancelled a))"

definition ids_inv :: "'w manager \<Rightarrow> bool" where
  "ids_inv m =
     ((\<forall>a \<in> set (activeAnimations m). aid a < nextObj m) \<and>
      distinct (map aid (activeAnimations m)) \<and>
      (\<forall>c \<in> set (calls m). call_id c < nextObj m) \<and>
      (\<forall>a \<in> set (activeAnimations m). CompleteCall (aid a) \<notin> set (calls m)))"

definition driver_inv :: "'w manager \<Rightarrow> bool" where
  "driver_inv m =
     (isRunning m = (activeAnimations m \<noteq> []) \<and>
      pendingFrames m = (if isRunning m then [frameCounter m] else []) \<and>
      animationId m = (if isRunning m then Some (frameCounter m) else None) \<and>
      (isRunning m \<longrightarrow> 0 < frameCounter m))"

text \<open>A small client for concrete runs: the scene state is a counter, each update adds
  one to it and completion adds a hundred.\<close>

definition count_update :: "number \<Rightarrow> int \<Rightarrow> nat \<Rightarrow> nat" where
  "count_update progress elapsed w = Suc w"

definition mark_done :: "nat \<Rightarrow> nat" where
  "mark_done w = w + 100"

definition demo_anim :: "nat animation" where
  "demo_anim = \<lparr>aid = 0, startTime = 0, duration = Fin 500, updateFn = count_update,
                 onComplete = Some mark_done, cancelled = False\<rparr>"

definition demo_steps :: "nat step list" where
  "demo_steps = [Add count_update (Fin 500) (Some mark_done) 0 0]"

section \<open>Object pools (src/unnamed/part_000)\<close>

text \<open>
  Meshes and labels are objects with identity: a reference is an address, and the store
  maps every address to the object there. \<open>nextRef\<close> is the next unused address, so an
  object made by a constructor or by \<open>clone\<close> is one no earlier reference denotes. The
  fields \<open>x\<close>, \<open>y\<close>, \<open>z\<close> of a vector are named \<open>vx\<close>, \<open>vy\<close>, \<open>vz\<close>. A decimal
  literal denotes the binary64 value nearest to it.
\<close>

type_synonym ref = nat

record Vector3 =
  vx :: real
  vy :: real
  vz :: real

definition vec :: "real \<Rightarrow> real \<Rightarrow> real \<Rightarrow> Vector3" where
  "vec a b c = \<lparr>vx = a, vy = b, vz = c\<rparr>"

record Material =
  color :: nat
  emissive :: nat
  emissiveIntensity :: "real option"
  metalness :: real
  roughness :: real
  clearcoat :: real
  clearcoatRoughness :: real
  reflectivity :: real
  envMapIntensity :: real

record UserData =
  velocity :: Vector3
  isRotating :: bool
  rotationGroup :: real
  rotationAxis :: string
  originalColor :: nat
  rotationAngle :: real
  isGameObject :: bool
  isCurrentlyHighlighted :: bool
  isFlashing :: bool
  label :: "ref option"
  animationProgress :: real
  targetScale :: real
  baseSpeed :: "real option"
  currentSpeedMultiplier :: real
  isSpeedBursting :: bool
  speedBurstEndTime :: real
  isColorSwapping :: bool
  targetColor :: "nat option"
  colorSwapProgress :: real
  colorSwapStartTime :: real
  initialColor :: "nat option"
  swapStartColor :: "nat option"

record Object3D =
  visible :: bool
  position :: Vector3
  scale :: Vector3
  children :: "ref list"

record Mesh = Object3D +
  castShadow :: bool
  receiveShadow :: bool
  material :: Material
  userData :: UserData

text \<open>A label is the group that \<open>createLabel\<close> builds; \<open>labelText\<close> and \<open>labelSize\<close>
  are what its two text geometries were built from.\<close>

record Label = Object3D +
  renderOrder :: int
  isLabel :: bool
  labelText :: string
  labelSize :: real

record Settings =
  numberSize :: real

text \<open>What the render engine was asked to construct, in order.\<close>

datatype build = BallBuilt ref | LabelBuilt string ref | LabelCloned ref ref

record BallPool =
  pool :: "ref list"
  active :: "ref list"
  labelPool :: bool

record LabelPool =
  pool :: "string \<rightharpoonup> ref"
  active :: "ref list"
  loadedFont :: "unit option"
  settings :: "Settings option"

text \<open>
  The state: the store of meshes and labels, the children of the scene, the
  constructions so far, one ball pool and the label pool it may refer to
  (\<open>labelPool\<close> of the ball pool says whether \<open>setLabelPool\<close> has been called).
\<close>

record state =
  balls :: "ref \<Rightarrow> Mesh"
  labels :: "ref \<Rightarrow> Label"
  nextRef :: ref
  sceneChildren :: "ref list"
  built :: "build list"
  ballPool :: BallPool
  lblPool :: LabelPool

text \<open>\<open>createBall()\<close>, second variant: the mesh and its outline are new objects.\<close>

definition new_ball :: "ref \<Rightarrow> Mesh" where
  "new_ball outline =
     \<lparr>visible = True, position = vec 0 0 0, scale = vec 1 1 1, children = [outline],
      castShadow = True, receiveShadow = True,
      material =
        \<lparr>color = 0xFFFFFF, emissive = 0xFFFFFF, emissiveIntensity = Some (rnd (5 / 100)),
         metalness = rnd (3 / 10), roughness = rnd (2 / 10), clearcoat = 1,
         clearcoatRoughness = rnd (1 / 10), reflectivity = rnd (9 / 10),
         envMapIntensity = rnd (15 / 10)\<rparr>,
      userData =
        \<lparr>velocity = vec 0 0 0, isRotating = False, rotationGroup = 0, rotationAxis = [],
         originalColor = 0x42A5F5, rotationAngle = 0, isGameObject = True,
         isCurrentlyHighlighted = False, isFlashing = False, label = None,
         animationProgress = 0, targetScale = 1, baseSpeed = None,
         currentSpeedMultiplier = 1, isSpeedBursting = False, speedBurstEndTime = 0,
         isColorSwapping = False, targetColor = None, colorSwapProgress = 0,
         colorSwapStartTime = 0, initialColor = None, swapStartColor = None\<rparr>\<rparr>"

definition createBall :: "state \<Rightarrow> ref \<times> state" where
  "createBall s =
     (let ball = nextRef s; outline = Suc (nextRef s)
      in (ball, s\<lparr>balls := (balls s)(ball := new_ball outline),
                   nextRef := Suc (Suc (nextRef s)),
                   built := built s @ [BallBuilt ball]\<rparr>))"

text \<open>\<open>scene.add(object)\<close> for an object that has no parent yet.\<close>

definition scene_add :: "ref \<Rightarrow> state \<Rightarrow> state" where
  "scene_add r s = s\<lparr>sceneChildren := sceneChildren s @ [r]\<rparr>"

text \<open>The state after \<open>new LabelPool()\<close> and \<open>new BallPool(scene)\<close> on an empty scene.\<close>

definition fresh_state :: "(ref \<Rightarrow> Mesh) \<Rightarrow> (ref \<Rightarrow> Label) \<Rightarrow> state" where
  "fresh_state bs ls =
     \<lparr>balls = bs, labels = ls, nextRef = 0, sceneChildren = [], built = [],
      ballPool = \<lparr>BallPool.pool = [], BallPool.active = [], labelPool = False\<rparr>,
      lblPool = \<lparr>LabelPool.pool = Map.empty, LabelPool.active = [], loadedFont = None,
                 settings = None\<rparr>\<rparr>"

text \<open>\<open>initialize(maxSize)\<close>: the loop \<open>for (let i = 0; i < maxSize; i++)\<close>.\<close>

definition initialize_body :: "state \<Rightarrow> state" where
  "initialize_body s =
     (let (ball, s1) = createBall s;
          s2 = s1\<lparr>balls := (balls s1)(ball := (balls s1 ball)\<lparr>visible := False\<rparr>)\<rparr>;
          s3 = s2\<lparr>ballPool := (ballPool s2)\<lparr>BallPool.pool := BallPool.pool (ballPool s2) @ [ball]\<rparr>\<rparr>
      in scene_add ball s3)"

function initialize_loop :: "int \<Rightarrow> int \<Rightarrow> state \<Rightarrow> state" where
  "initialize_loop i maxSize s =
     (if i < maxSize then initialize_loop (i + 1) maxSize (initialize_body s) else s)"
  by pat_completeness auto
termination
  by (relation "measure (\<lambda>(i, maxSize, s). nat (maxSize - i))") auto

definition initialize :: "int \<Rightarrow> state \<Rightarrow> state" where
  "initialize maxSize s = initialize_loop 0 maxSize s"

text \<open>\<open>acquire(color)\<close>: \<open>pop\<close> takes the last element of the free list.\<close>

definition acquire :: "nat \<Rightarrow> state \<Rightarrow> ref \<times> state" where
  "acquire c s =
     (let (ball, s1) =
            (if 0 < length (BallPool.pool (ballPool s))
             then (last (BallPool.pool (ballPool s)),
                   s\<lparr>ballPool := (ballPool s)\<lparr>BallPool.pool := butlast (BallPool.pool (ballPool s))\<rparr>\<rparr>)
             else (let (b, s') = createBall s in (b, scene_add b s')));
          m = balls s1 ball;
          m' = m\<lparr>visible := True,
                 material := (material m)\<lparr>color := c\<rparr>,
                 userData := (userData m)\<lparr>originalColor := c\<rparr>\<rparr>;
          s2 = s1\<lparr>balls := (balls s1)(ball := m')\<rparr>
      in (ball,
          s2\<lparr>ballPool := (ballPool s2)\<lparr>BallPool.active := BallPool.active (ballPool s2) @ [ball]\<rparr>\<rparr>))"

text \<open>\<open>LabelPool.release(label)\<close>; the argument is an object, so \<open>!label\<close> is false.\<close>

definition label_release :: "ref \<Rightarrow> state \<Rightarrow> state" where
  "label_release l s =
     (let s1 = (if l \<in> set (LabelPool.active (lblPool s))
                then s\<lparr>lblPool := (lblPool s)\<lparr>LabelPool.active := remove1 l (LabelPool.active (lblPool s))\<rparr>\<rparr>
                else s)
      in s1\<lparr>labels := (labels s1)(l := (labels s1 l)\<lparr>visible := False\<rparr>)\<rparr>)"

text \<open>The assignments at the head of \<open>release\<close>, second variant.\<close>

definition reset_ball :: "Mesh \<Rightarrow> Mesh" where
  "reset_ball m =
     m\<lparr>visible := False,
       position := vec 0 0 0,
       material := (material m)\<lparr>color := originalColor (userData m), emissive := 0xFFFFFF,
                                 emissiveIntensity := Some (rnd (5 / 100))\<rparr>,
       scale := vec 1 1 1,
       userData := (userData m)
         \<lparr>velocity := vec 0 0 0, isRotating := False, isCurrentlyHighlighted := False,
          isFlashing := False, rotationAngle := 0, rotationGroup := 0, rotationAxis := [],
          baseSpeed := None, currentSpeedMultiplier := 1, isSpeedBursting := False,
          speedBurstEndTime := 0, isColorSwapping := False, targetColor := None,
          colorSwapProgress := 0, colorSwapStartTime := 0, initialColor := None,
          swapStartColor := None\<rparr>\<rparr>"


text \<open>
  The rest of \<open>release\<close>, common to both variants: an attached label is released and
  detached if a label pool is set; then the ball moves from the active list to the free
  list if \<open>indexOf\<close> finds it there (\<open>splice\<close> removes that first occurrence).
\<close>

definition detach_label :: "ref \<Rightarrow> state \<Rightarrow> state" where
  "detach_label ball s =
     (case label (userData (balls s ball)) of
        None \<Rightarrow> s
      | Some l \<Rightarrow>
          if labelPool (ballPool s)
          then (let s1 = label_release l s;
                    m = balls s1 ball
                in s1\<lparr>balls := (balls s1)
                       (ball := m\<lparr>children := remove1 l (children m),
                                  userData := (userData m)\<lparr>label := None\<rparr>\<rparr>)\<rparr>)
          else s)"

definition return_to_pool :: "ref \<Rightarrow> state \<Rightarrow> state" where
  "return_to_pool ball s =
     (if ball \<in> set (BallPool.active (ballPool s))
      then s\<lparr>ballPool := (ballPool s)
               \<lparr>BallPool.active := remove1 ball (BallPool.active (ballPool s)),
                BallPool.pool := BallPool.pool (ballPool s) @ [ball]\<rparr>\<rparr>
      else s)"

definition release :: "ref \<Rightarrow> state \<Rightarrow> state" where
  "release ball s =
     return_to_pool ball
       (detach_label ball (s\<lparr>balls := (balls s)(ball := reset_ball (balls s ball))\<rparr>))"


text \<open>\<open>releaseAll()\<close>: \<open>forEach\<close> over a copy of the active list.\<close>

definition releaseAll :: "state \<Rightarrow> state" where
  "releaseAll s = foldl (\<lambda>s' ball. release ball s') s (BallPool.active (ballPool s))"

definition setLabelPool :: "state \<Rightarrow> state" where
  "setLabelPool s = s\<lparr>ballPool := (ballPool s)\<lparr>labelPool := True\<rparr>\<rparr>"

definition setFont :: "state \<Rightarrow> state" where
  "setFont s = s\<lparr>lblPool := (lblPool s)\<lparr>loadedFont := Some ()\<rparr>\<rparr>"

definition setSettings :: "Settings \<Rightarrow> state \<Rightarrow> state" where
  "setSettings st s = s\<lparr>lblPool := (lblPool s)\<lparr>settings := Some st\<rparr>\<rparr>"

text \<open>\<open>number.toString()\<close> for an integer.\<close>

fun digits :: "nat \<Rightarrow> string" where
  "digits n =
     (if n < 10 then [''0123456789'' ! n]
      else digits (n div 10) @ [''0123456789'' ! (n mod 10)])"

definition toString :: "int \<Rightarrow> string" where
  "toString n = (if n < 0 then CHR ''-'' # digits (nat (- n)) else digits (nat n))"

text \<open>
  \<open>createLabel(number)\<close>, second variant: the group, its stroke mesh and its text mesh
  are three new objects; the group sits at \<open>(0, 0, 2.0 + numberSize * 0.2)\<close>.
\<close>

definition createLabel :: "int \<Rightarrow> state \<Rightarrow> ref \<times> state" where
  "createLabel n s =
     (let sz = (case settings (lblPool s) of None \<Rightarrow> rnd (5 / 10) | Some st \<Rightarrow> numberSize st);
          offsetZ = rnd (2 + rnd (sz * rnd (2 / 10)));
          labelGroup = nextRef s; strokeMesh = Suc (nextRef s); textMesh = Suc (Suc (nextRef s));
          g = \<lparr>visible = False, position = vec 0 0 offsetZ, scale = vec 1 1 1,
               children = [strokeMesh, textMesh],
               renderOrder = 999, isLabel = True, labelText = toString n, labelSize = sz\<rparr>
      in (labelGroup,
          s\<lparr>labels := (labels s)(labelGroup := g),
            nextRef := Suc (Suc (Suc (nextRef s))),
            built := built s @ [LabelBuilt (toString n) labelGroup]\<rparr>))"

text \<open>\<open>label.clone()\<close>: a new group with new copies of the children of the original.\<close>

definition clone :: "ref \<Rightarrow> state \<Rightarrow> ref \<times> state" where
  "clone l s =
     (let c = nextRef s;
          n = length (children (labels s l));
          g = (labels s l)\<lparr>children := map (\<lambda>i. Suc (c + i)) [0 ..< n]\<rparr>
      in (c, s\<lparr>labels := (labels s)(c := g),
                nextRef := Suc (c + n),
                built := built s @ [LabelCloned l c]\<rparr>))"

text \<open>\<open>LabelPool.acquire(number)\<close>; \<open>None\<close> is the \<open>null\<close> returned without a font.\<close>

definition label_acquire :: "int \<Rightarrow> state \<Rightarrow> ref option \<times> state" where
  "label_acquire n s =
     (case loadedFont (lblPool s) of
        None \<Rightarrow> (None, s)
      | Some font \<Rightarrow>
          let key = toString n;
              (lbl, s1) =
                (case LabelPool.pool (lblPool s) key of
                   None \<Rightarrow>
                     (let (l, s') = createLabel n s
                      in (l, s'\<lparr>lblPool := (lblPool s')
                               \<lparr>LabelPool.pool := (LabelPool.pool (lblPool s'))(key \<mapsto> l)\<rparr>\<rparr>))
                 | Some l \<Rightarrow> (l, s));
              (clonedLabel, s2) = clone lbl s1;
              s3 = s2\<lparr>labels := (labels s2)(clonedLabel := (labels s2 clonedLabel)\<lparr>visible := True\<rparr>)\<rparr>
          in (Some clonedLabel,
              s3\<lparr>lblPool := (lblPool s3)
                   \<lparr>LabelPool.active := LabelPool.active (lblPool s3) @ [clonedLabel]\<rparr>\<rparr>))"

text \<open>A run of \<open>acquire\<close> calls, one per colour, collecting the instances returned.\<close>

fun acquire_all :: "nat list \<Rightarrow> state \<Rightarrow> ref list \<times> state" where
  "acquire_all [] s = ([], s)"
| "acquire_all (c # cs) s =
     (let (b, s1) = acquire c s; (bs, s2) = acquire_all cs s1 in (b # bs, s2))"

text \<open>A store to start concrete runs from; what lies at unused addresses is never read.\<close>

definition blank_label :: Label where
  "blank_label =
     \<lparr>visible = False, position = vec 0 0 0, scale = vec 1 1 1, children = [],
      renderOrder = 0, isLabel = False, labelText = [], labelSize = 0\<rparr>"

definition start_state :: state where
  "start_state = fresh_state (\<lambda>r. new_ball 0) (\<lambda>r. blank_label)"

section \<open>Easing functions (src/js/animations.js)\<close>

text \<open>
  Arithmetic on finite numbers: the exact result, rounded. The easing functions and the
  effects below are applied to finite arguments and stay far from the overflow threshold.
  \<open>Math.sin\<close>, \<open>Math.cos\<close>, \<open>Math.acos\<close> and \<open>Math.pow\<close> are taken to return the
  binary64 value nearest to the exact result.
\<close>

definition jadd :: "real \<Rightarrow> real \<Rightarrow> real" where
  "jadd a b = rnd (a + b)"

definition jsub :: "real \<Rightarrow> real \<Rightarrow> real" where
  "jsub a b = rnd (a - b)"

definition jmul :: "real \<Rightarrow> real \<Rightarrow> real" where
  "jmul a b = rnd (a * b)"

definition jdiv :: "real \<Rightarrow> real \<Rightarrow> real" where
  "jdiv a b = rnd (a / b)"

text \<open>\<open>Math.PI\<close> is the binary64 value \<open>0x1.921fb54442d18p+1\<close>.\<close>

definition Math_PI :: real where
  "Math_PI = 884279719003555 / 2 ^ 48"

definition Math_sin :: "real \<Rightarrow> real" where
  "Math_sin x = rnd (sin x)"

definition Math_cos :: "real \<Rightarrow> real" where
  "Math_cos x = rnd (cos x)"

definition Math_acos :: "real \<Rightarrow> real" where
  "Math_acos x = rnd (arccos x)"

text \<open>\<open>Math.pow(base, exponent)\<close>, for a natural exponent or a positive base.\<close>

definition Math_pow :: "real \<Rightarrow> real \<Rightarrow> real" where
  "Math_pow base e =
     (if 0 \<le> e \<and> e = of_int \<lfloor>e\<rfloor> then rnd (base ^ nat \<lfloor>e\<rfloor>) else rnd (base powr e))"

definition easeOutElastic :: "real \<Rightarrow> real" where
  "easeOutElastic t =
     (let c4 = jdiv (jmul 2 Math_PI) 3
      in if t = 0 then 0
         else if t = 1 then 1
         else jadd (jmul (Math_pow 2 (jmul (- 10) t))
                         (Math_sin (jmul (jsub (jmul t 10) (75 / 100)) c4)))
                   1)"





section \<open>Effect builders (src/js/animations.js)\<close>

text \<open>
  The scene state the callbacks of the effects act on: the store of the pools, the
  particle clouds, and the values that the coming calls of \<open>Math.random()\<close> return.
  A \<open>Float32Array\<close> rounds what is stored in it to binary32 (\<open>fround\<close>). The array
  \<open>velocities\<close>, a local variable that the update callback of a burst closes over, is
  kept with the particle cloud it belongs to.
\<close>

definition fround :: "real \<Rightarrow> real" where
  "fround x =
     (if x = 0 then 0
      else (let e = max \<lfloor>log 2 \<bar>x\<bar>\<rfloor> (- 126) - 23
            in of_int (round_half_even (x / 2 powi e)) * 2 powi e))"

record Points =
  positions :: "real list"
  needsUpdate :: bool
  pointsColor :: nat
  pointsSize :: real
  transparent :: bool
  opacity :: real
  geometryDisposed :: bool
  materialDisposed :: bool
  velocities :: "real list"

record scene = state +
  points :: "ref \<Rightarrow> Points"
  randoms :: "nat \<Rightarrow> real"
  drawn :: nat

definition Math_random :: "scene \<Rightarrow> real \<times> scene" where
  "Math_random w = (randoms w (drawn w), w\<lparr>drawn := Suc (drawn w)\<rparr>)"

text \<open>The first loop of \<open>createParticleBurst\<close>, counting the particles still to make.\<close>

fun burst_loop ::
  "nat \<Rightarrow> Vector3 \<Rightarrow> real list \<times> real list \<times> scene \<Rightarrow> real list \<times> real list \<times> scene" where
  "burst_loop 0 p s = s"
| "burst_loop (Suc n) p (vertices, vels, w) =
     (let (r1, w1) = Math_random w;
          theta = jmul (jmul r1 Math_PI) 2;
          (r2, w2) = Math_random w1;
          phi = Math_acos (jsub (jmul r2 2) 1);
          (r3, w3) = Math_random w2;
          speed = jadd (1 / 2) (jmul r3 (1 / 2))
      in burst_loop n p
           (vertices @ [vx p, vy p, vz p],
            vels @ [jmul (jmul (Math_sin phi) (Math_cos theta)) speed,
                    jmul (jmul (Math_sin phi) (Math_sin theta)) speed,
                    jmul (Math_cos phi) speed],
            w3))"

text \<open>The body of the loop in the update callback of a burst, for particle \<open>i\<close>.\<close>

definition move_particle :: "nat \<Rightarrow> real list \<times> real list \<Rightarrow> real list \<times> real list" where
  "move_particle i s =
     (let ps = fst s; vs = snd s;
          ps1 = ps[i * 3 := fround (jadd (ps ! (i * 3)) (vs ! (i * 3)))];
          ps2 = ps1[i * 3 + 1 := fround (jadd (ps1 ! (i * 3 + 1)) (vs ! (i * 3 + 1)))];
          ps3 = ps2[i * 3 + 2 := fround (jadd (ps2 ! (i * 3 + 2)) (vs ! (i * 3 + 2)))];
          vs1 = vs[i * 3 + 1 := jsub (vs ! (i * 3 + 1)) (rnd (2 / 100))]
      in (ps3, vs1))"

text \<open>The callbacks of a burst. Its duration is 800, so the progress passed is finite.\<close>

definition burst_update :: "ref \<Rightarrow> number \<Rightarrow> int \<Rightarrow> scene \<Rightarrow> scene" where
  "burst_update particles progress elapsed w =
     (let c = points w particles;
          (ps, vs) = foldl (\<lambda>s i. move_particle i s) (positions c, velocities c) [0 ..< 30];
          c1 = c\<lparr>positions := ps, velocities := vs, needsUpdate := True\<rparr>;
          c2 = (case progress of Fin p \<Rightarrow> c1\<lparr>opacity := jsub 1 p\<rparr> | _ \<Rightarrow> c1)
      in w\<lparr>points := (points w)(particles := c2)\<rparr>)"

definition burst_complete :: "ref \<Rightarrow> scene \<Rightarrow> scene" where
  "burst_complete particles w =
     w\<lparr>sceneChildren := remove1 particles (sceneChildren w),
       points := (points w)(particles := (points w particles)
                   \<lparr>geometryDisposed := True, materialDisposed := True\<rparr>)\<rparr>"

definition createParticleBurst ::
  "Vector3 \<Rightarrow> nat \<Rightarrow> int \<Rightarrow> int \<Rightarrow> scene manager \<Rightarrow> nat \<times> scene manager" where
  "createParticleBurst p c t_add t_tick m =
     (let (vertices, vels, w1) = burst_loop 30 p ([], [], world m);
          particles = nextRef w1;
          cloud = \<lparr>positions = map fround vertices, needsUpdate = False, pointsColor = c,
                   pointsSize = rnd (3 / 10), transparent = True, opacity = 1,
                   geometryDisposed = False, materialDisposed = False, velocities = vels\<rparr>;
          w2 = w1\<lparr>points := (points w1)(particles := cloud),
                  nextRef := Suc (nextRef w1),
                  sceneChildren := sceneChildren w1 @ [particles]\<rparr>
      in add (burst_update particles) (Fin 800) (Some (burst_complete particles))
           t_add t_tick (m\<lparr>world := w2\<rparr>))"

text \<open>The callbacks of \<open>animateBallSelection\<close>. Its duration is 500, so the progress
  passed is finite.\<close>

definition selection_update ::
  "ref \<Rightarrow> bool \<Rightarrow> real \<Rightarrow> Vector3 \<Rightarrow> number \<Rightarrow> int \<Rightarrow> scene \<Rightarrow> scene" where
  "selection_update ball isCorrect startScale originalPosition progress elapsed w =
     (case progress of
        Fin p \<Rightarrow>
          if isCorrect
          then (let targetScale = rnd (12 / 10);
                    s = jadd startScale (jmul (jsub targetScale startScale) (easeOutElastic p));
                    b1 = (balls w ball)\<lparr>scale := vec s s s\<rparr>;
                    b2 = (if emissiveIntensity (material b1) \<noteq> None
                          then b1\<lparr>material := (material b1)
                                  \<lparr>emissiveIntensity := Some (jmul (rnd (3 / 10)) (jsub 1 p))\<rparr>\<rparr>
                          else b1)
                in w\<lparr>balls := (balls w)(ball := b2)\<rparr>)
          else (let shakeAmount = jmul (rnd (3 / 10)) (jsub 1 p);
                    offsetX = jmul (Math_sin (jmul p 40)) shakeAmount;
                    offsetY = jmul (Math_sin (jmul p 35)) shakeAmount;
                    b = balls w ball
                in w\<lparr>balls := (balls w)
                      (ball := b\<lparr>position := (position b)
                                 \<lparr>vx := jadd (vx originalPosition) offsetX,
                                  vy := jadd (vy originalPosition) offsetY\<rparr>\<rparr>)\<rparr>)
      | _ \<Rightarrow> w)"

definition selection_complete :: "ref \<Rightarrow> Vector3 \<Rightarrow> scene \<Rightarrow> scene" where
  "selection_complete ball originalPosition w =
     (let b1 = (balls w ball)\<lparr>scale := vec 1 1 1, position := originalPosition\<rparr>;
          b2 = (if emissiveIntensity (material b1) \<noteq> None
                then b1\<lparr>material := (material b1)\<lparr>emissiveIntensity := Some (rnd (5 / 100))\<rparr>\<rparr>
                else b1)
      in w\<lparr>balls := (balls w)(ball := b2)\<rparr>)"

text \<open>
  \<open>animateBallSelection(ball, isCorrect, scene)\<close>. The clock is read by the \<open>add\<close> of
  the burst (\<open>t1\<close>, and \<open>t1'\<close> if it starts the loop) and by the \<open>add\<close> of the selection
  animation (\<open>t2\<close>, \<open>t2'\<close>).
\<close>

definition animateBallSelection ::
  "ref \<Rightarrow> bool \<Rightarrow> int \<Rightarrow> int \<Rightarrow> int \<Rightarrow> int \<Rightarrow> scene manager \<Rightarrow> nat \<times> scene manager" where
  "animateBallSelection ball isCorrect t1 t1' t2 t2' m =
     (let startScale = vx (scale (balls (world m) ball));
          originalPosition = position (balls (world m) ball);
          m1 = (if isCorrect
                then snd (createParticleBurst (position (balls (world m) ball)) 0xFFD700 t1 t1' m)
                else m)
      in add (selection_update ball isCorrect startScale originalPosition) (Fin 500)
           (Some (selection_complete ball originalPosition)) t2 t2' m1)"

text \<open>A scene for concrete runs: one ball, at address 0, enlarged to twice its size.\<close>

definition big_scene :: scene where
  "big_scene =
     state.extend (start_state\<lparr>balls := (\<lambda>r. (new_ball 1)\<lparr>scale := vec 2 2 2\<rparr>), nextRef := 2\<rparr>)
       (scene.fields (\<lambda>r. \<lparr>positions = [], needsUpdate = False, pointsColor = 0,
                           pointsSize = 0, transparent = False, opacity = 1,
                           geometryDisposed = False, materialDisposed = False,
                           velocities = []\<rparr>)
                     (\<lambda>n. 0) 0)"

section \<open>Properties of the animation manager\<close>

lemma visit_eq:
  "visit now a (cs, w) = (stays now a, cs @ visit_calls now a, visit_world now a w)"
  by (simp add: visit_def stays_def visit_calls_def visit_world_def Let_def
      split: option.split)

lemma filter_animations_eq:
  "filter_animations now as (cs, w) =
     (filter (stays now) as, cs @ concat (map (visit_calls now) as),
      foldl (\<lambda>w a. visit_world now a w) w as)"
  by (induction as arbitrary: cs w) (simp_all add: visit_eq)

lemma update_fields:
  "activeAnimations (update now m) = filter (stays now) (activeAnimations m)"
  "calls (update now m) = calls m @ concat (map (visit_calls now) (activeAnimations m))"
  "world (update now m) = foldl (\<lambda>w a. visit_world now a w) (world m) (activeAnimations m)"
  "nextObj (update now m) = nextObj m"
  by (simp_all add: update_def filter_animations_eq requestAnimationFrame_def Let_def)

lemma update_driver:
  "isRunning (update now m) = (isRunning m \<and> filter (stays now) (activeAnimations m) \<noteq> [])"
  "pendingFrames (update now m) =
     (if filter (stays now) (activeAnimations m) \<noteq> []
      then pendingFrames m @ [Suc (frameCounter m)] else pendingFrames m)"
  "animationId (update now m) =
     (if filter (stays now) (activeAnimations m) \<noteq> []
      then Some (Suc (frameCounter m)) else None)"
  "frameCounter (update now m) =
     (if filter (stays now) (activeAnimations m) \<noteq> []
      then Suc (frameCounter m) else frameCounter m)"
  by (simp_all add: update_def filter_animations_eq requestAnimationFrame_def Let_def)


lemma driver_inv_constructor: "driver_inv (constructor w)"
  by (simp add: driver_inv_def constructor_def)

lemma driver_inv_add: "driver_inv m \<Longrightarrow> driver_inv (snd (add upd dur oc t_add t_tick m))"
  by (auto simp: driver_inv_def add_def start_def Let_def update_fields update_driver)

lemma driver_inv_cancel: "driver_inv m \<Longrightarrow> driver_inv (cancel h m)"
  by (simp add: driver_inv_def cancel_def)

lemma driver_inv_frame: "driver_inv m \<Longrightarrow> driver_inv (frame now m)"
  by (auto simp: driver_inv_def frame_def update_fields update_driver split: list.splits if_splits)

lemma driver_inv_stopAll: "driver_inv m \<Longrightarrow> driver_inv (stopAll m)"
  by (auto simp: driver_inv_def stopAll_def cancelAnimationFrame_def Let_def split: option.splits)

lemma driver_inv_step: "driver_inv m \<Longrightarrow> driver_inv (do_step s m)"
  by (cases s) (simp_all add: driver_inv_add driver_inv_cancel driver_inv_frame driver_inv_stopAll)

lemma driver_inv_run: "driver_inv m \<Longrightarrow> driver_inv (run ss m)"
  by (induction ss arbitrary: m) (simp_all add: driver_inv_step)


lemma call_id_visit_calls: "c \<in> set (visit_calls now a) \<Longrightarrow> call_id c = aid a"
  by (auto simp: visit_calls_def split: if_splits)

lemma calls_of_Nil [simp]: "calls_of i [] = []"
  by (simp add: calls_of_def)

lemma calls_of_append [simp]: "calls_of i (xs @ ys) = calls_of i xs @ calls_of i ys"
  by (simp add: calls_of_def)

lemma calls_of_visit_other: "aid a \<noteq> i \<Longrightarrow> calls_of i (visit_calls now a) = []"
  by (auto simp: calls_of_def filter_empty_conv dest: call_id_visit_calls)

lemma calls_of_visit_self: "calls_of (aid a) (visit_calls now a) = visit_calls now a"
  by (auto simp: calls_of_def filter_id_conv dest: call_id_visit_calls)

lemma calls_of_concat_absent:
  "i \<notin> aid ` set as \<Longrightarrow> calls_of i (concat (map (visit_calls now) as)) = []"
  by (induction as) (auto simp: calls_of_visit_other)

lemma calls_of_concat_distinct:
  "distinct (map aid as) \<Longrightarrow> a \<in> set as \<Longrightarrow>
     calls_of (aid a) (concat (map (visit_calls now) as)) = visit_calls now a"
proof (induction as)
  case Nil
  then show ?case by simp
next
  case (Cons b bs)
  show ?case
  proof (cases "a = b")
    case True
    with Cons.prems have "aid a \<notin> aid ` set bs" by auto
    then show ?thesis using True
      by (simp add: calls_of_visit_self calls_of_concat_absent)
  next
    case False
    with Cons.prems have "a \<in> set bs" and "aid b \<noteq> aid a" and "distinct (map aid bs)"
      by auto
    then show ?thesis using Cons.IH by (simp add: calls_of_visit_other)
  qed
qed

lemma calls_of_concat_silent:
  "\<forall>a \<in> set as. aid a = i \<longrightarrow> cancelled a \<Longrightarrow>
     calls_of i (concat (map (visit_calls now) as)) = []"
proof (induction as)
  case Nil
  then show ?case by simp
next
  case (Cons b bs)
  have "calls_of i (visit_calls now b) = []"
  proof (cases "aid b = i")
    case True
    with Cons.prems have "cancelled b" by simp
    then show ?thesis by (simp add: visit_calls_def calls_of_def)
  next
    case False
    then show ?thesis by (rule calls_of_visit_other)
  qed
  then show ?case using Cons by simp
qed


lemma mem_calls_of: "c \<in> set cs \<Longrightarrow> call_id c = i \<Longrightarrow> c \<in> set (calls_of i cs)"
  by (simp add: calls_of_def)

lemma calls_of_fresh: "\<forall>c \<in> set cs. call_id c < n \<Longrightarrow> calls_of n cs = []"
  by (auto simp: calls_of_def filter_empty_conv)

subsection \<open>Silent identities\<close>

lemma silent_update:
  assumes "silent i m"
  shows "silent i (update now m)" and "calls_of i (calls (update now m)) = calls_of i (calls m)"
  using assms by (auto simp: silent_def update_fields calls_of_concat_silent)

lemma silent_cong:
  "activeAnimations m' = activeAnimations m \<Longrightarrow> nextObj m' = nextObj m \<Longrightarrow>
     silent i m' = silent i m"
  by (simp add: silent_def)

lemma silent_add:
  assumes "silent i m"
  shows "silent i (snd (add upd dur oc t_add t_tick m))"
    and "calls_of i (calls (snd (add upd dur oc t_add t_tick m))) = calls_of i (calls m)"
proof -
  let ?a = "\<lparr>aid = nextObj m, startTime = t_add, duration = dur, updateFn = upd,
              onComplete = oc, cancelled = False\<rparr>"
  let ?m1 = "m\<lparr>activeAnimations := activeAnimations m @ [?a], nextObj := Suc (nextObj m)\<rparr>"
  have s1: "silent i ?m1" using assms by (auto simp: silent_def)
  then have s2: "silent i (?m1\<lparr>isRunning := True\<rparr>)" by (simp add: silent_def)
  have eq: "snd (add upd dur oc t_add t_tick m) =
      (if \<not> isRunning m then update t_tick (?m1\<lparr>isRunning := True\<rparr>) else ?m1)"
    by (simp add: add_def start_def Let_def)
  show "silent i (snd (add upd dur oc t_add t_tick m))"
    using s1 silent_update(1) [OF s2] by (simp only: eq split: if_split) simp
  show "calls_of i (calls (snd (add upd dur oc t_add t_tick m))) = calls_of i (calls m)"
    using silent_update(2) [OF s2] by (simp only: eq split: if_split) simp
qed

lemma silent_cancel:
  assumes "silent i m"
  shows "silent i (cancel h m)" and "calls_of i (calls (cancel h m)) = calls_of i (calls m)"
  using assms by (auto simp: silent_def cancel_def)

lemma silent_frame:
  assumes "silent i m"
  shows "silent i (frame now m)" and "calls_of i (calls (frame now m)) = calls_of i (calls m)"
proof -
  have "\<And>hs. silent i (m\<lparr>pendingFrames := hs\<rparr>)" using assms by (simp add: silent_def)
  then show "silent i (frame now m)" and "calls_of i (calls (frame now m)) = calls_of i (calls m)"
    using assms by (auto simp: frame_def silent_update split: list.splits)
qed

lemma silent_stopAll:
  assumes "silent i m"
  shows "silent i (stopAll m)" and "calls_of i (calls (stopAll m)) = calls_of i (calls m)"
  using assms
  by (auto simp: silent_def stopAll_def cancelAnimationFrame_def Let_def split: option.splits)

lemma silent_step:
  assumes "silent i m"
  shows "silent i (do_step s m)" and "calls_of i (calls (do_step s m)) = calls_of i (calls m)"
  using assms
  by (cases s; simp add: silent_add silent_cancel silent_frame silent_stopAll)+

lemma silent_run:
  "silent i m \<Longrightarrow> silent i (run ss m) \<and> calls_of i (calls (run ss m)) = calls_of i (calls m)"
  by (induction ss arbitrary: m) (simp_all add: silent_step)


subsection \<open>Identities\<close>

lemma complete_notin_visit_stays:
  "stays now a \<Longrightarrow> CompleteCall i \<notin> set (visit_calls now a)"
  by (simp add: stays_def visit_calls_def)

lemma ids_inv_update:
  assumes "ids_inv m"
  shows "ids_inv (update now m)"
proof -
  let ?as = "activeAnimations m"
  let ?new = "concat (map (visit_calls now) ?as)"
  from assms have a: "\<forall>a \<in> set ?as. aid a < nextObj m"
    and b: "distinct (map aid ?as)"
    and c: "\<forall>c \<in> set (calls m). call_id c < nextObj m"
    and d: "\<forall>a \<in> set ?as. CompleteCall (aid a) \<notin> set (calls m)"
    by (simp_all add: ids_inv_def)
  have c': "\<forall>c \<in> set ?new. call_id c < nextObj m"
    using a by (auto dest: call_id_visit_calls)
  have d': "CompleteCall (aid x) \<notin> set ?new" if "x \<in> set ?as" and "stays now x" for x
  proof
    assume "CompleteCall (aid x) \<in> set ?new"
    then have "CompleteCall (aid x) \<in> set (calls_of (aid x) ?new)"
      by (rule mem_calls_of) simp
    then have "CompleteCall (aid x) \<in> set (visit_calls now x)"
      using calls_of_concat_distinct [OF b that(1)] by simp
    then show False using complete_notin_visit_stays [OF that(2)] by simp
  qed
  show ?thesis
    unfolding ids_inv_def update_fields
    using a b c c' d d' by (auto simp: distinct_map_filter)
qed

lemma ids_inv_cong:
  "activeAnimations m' = activeAnimations m \<Longrightarrow> nextObj m' = nextObj m \<Longrightarrow>
     calls m' = calls m \<Longrightarrow> ids_inv m' = ids_inv m"
  by (simp add: ids_inv_def)

lemma ids_inv_constructor: "ids_inv (constructor w)"
  by (simp add: ids_inv_def constructor_def)

lemma ids_inv_append:
  assumes "ids_inv m"
  shows "ids_inv (m\<lparr>activeAnimations := activeAnimations m @
            [\<lparr>aid = nextObj m, startTime = t, duration = dur, updateFn = upd,
              onComplete = oc, cancelled = False\<rparr>],
          nextObj := Suc (nextObj m)\<rparr>)"
  using assms by (fastforce simp: ids_inv_def less_Suc_eq)

lemma ids_inv_add:
  assumes "ids_inv m"
  shows "ids_inv (snd (add upd dur oc t_add t_tick m))"
proof -
  let ?a = "\<lparr>aid = nextObj m, startTime = t_add, duration = dur, updateFn = upd,
              onComplete = oc, cancelled = False\<rparr>"
  let ?m1 = "m\<lparr>activeAnimations := activeAnimations m @ [?a], nextObj := Suc (nextObj m)\<rparr>"
  have i1: "ids_inv ?m1" using assms by (rule ids_inv_append)
  then have "ids_inv (?m1\<lparr>isRunning := True\<rparr>)" by (simp add: ids_inv_def)
  then have i2: "ids_inv (update t_tick (?m1\<lparr>isRunning := True\<rparr>))" by (rule ids_inv_update)
  have eq: "snd (add upd dur oc t_add t_tick m) =
      (if \<not> isRunning m then update t_tick (?m1\<lparr>isRunning := True\<rparr>) else ?m1)"
    by (simp add: add_def start_def Let_def)
  show ?thesis using i1 i2 by (simp only: eq split: if_split) simp
qed

lemma aid_cancel_map:
  "aid \<circ> (\<lambda>a. if aid a = h then a\<lparr>cancelled := True\<rparr> else a) = aid"
  by (rule ext) simp

lemma ids_inv_cancel: "ids_inv m \<Longrightarrow> ids_inv (cancel h m)"
  by (auto simp: ids_inv_def cancel_def aid_cancel_map)

lemma ids_inv_frame: "ids_inv m \<Longrightarrow> ids_inv (frame now m)"
proof -
  assume i: "ids_inv m"
  then have "\<And>hs. ids_inv (m\<lparr>pendingFrames := hs\<rparr>)" by (simp add: ids_inv_def)
  then show ?thesis using i by (auto simp: frame_def ids_inv_update split: list.splits)
qed

lemma ids_inv_stopAll: "ids_inv m \<Longrightarrow> ids_inv (stopAll m)"
  by (auto simp: ids_inv_def stopAll_def cancelAnimationFrame_def Let_def split: option.splits)

lemma ids_inv_step: "ids_inv m \<Longrightarrow> ids_inv (do_step s m)"
  by (cases s) (simp_all add: ids_inv_add ids_inv_cancel ids_inv_frame ids_inv_stopAll)

lemma ids_inv_run: "ids_inv m \<Longrightarrow> ids_inv (run ss m)"
  by (induction ss arbitrary: m) (simp_all add: ids_inv_step)


subsection \<open>Rounding\<close>

lemma round_half_even_ge: "of_int n \<le> q \<Longrightarrow> n \<le> round_half_even q"
proof -
  assume "of_int n \<le> q"
  then have "n \<le> \<lfloor>q\<rfloor>" by (simp add: le_floor_iff)
  moreover have "\<lfloor>q\<rfloor> \<le> round_half_even q"
    by (simp add: round_half_even_def Let_def)
  ultimately show ?thesis by linarith
qed

lemma round_half_even_of_int: "round_half_even (of_int n) = n"
  by (simp add: round_half_even_def Let_def)


lemma rnd_0: "rnd 0 = 0"
  by (simp add: rnd_def)

lemma floor_log2_bounds:
  assumes "0 < x"
  shows "2 powi \<lfloor>log 2 x\<rfloor> \<le> x" and "x < 2 powi (\<lfloor>log 2 x\<rfloor> + 1)"
proof -
  have "2 powr of_int \<lfloor>log 2 x\<rfloor> \<le> x \<and> x < 2 powr of_int (\<lfloor>log 2 x\<rfloor> + 1)"
    using floor_log_eq_powr_iff [of x 2 "\<lfloor>log 2 x\<rfloor>"] assms by simp
  then show "2 powi \<lfloor>log 2 x\<rfloor> \<le> x" and "x < 2 powi (\<lfloor>log 2 x\<rfloor> + 1)"
    by (simp_all only: powr_real_of_int' [of 2, simplified])
qed


lemma rnd_lower:
  assumes "x \<noteq> 0" and "of_int n * 2 powi ulp_exp x \<le> x"
  shows "of_int n * 2 powi ulp_exp x \<le> rnd x"
proof -
  have u: "(0::real) < 2 powi ulp_exp x" by simp
  from assms(2) have "of_int n \<le> x / 2 powi ulp_exp x"
    using u by (simp add: pos_le_divide_eq)
  then have "n \<le> round_half_even (x / 2 powi ulp_exp x)" by (rule round_half_even_ge)
  then have "(of_int n :: real) \<le> of_int (round_half_even (x / 2 powi ulp_exp x))" by simp
  then have "of_int n * (2::real) powi ulp_exp x
      \<le> of_int (round_half_even (x / 2 powi ulp_exp x)) * 2 powi ulp_exp x"
    using u by (simp only: mult_le_cancel_right_pos)
  then show ?thesis using assms(1) by (simp only: rnd_def if_False)
qed


lemma pow52_shift: "of_int (2 ^ 52) * (2::real) powi (k - 52) = 2 powi k"
  using power_int_add [of "2::real" 52 "k - 52"] by simp


lemma rnd_ge_1: assumes "1 \<le> x" shows "1 \<le> rnd x"
proof -
  define k where "k = \<lfloor>log 2 x\<rfloor>"
  have x0: "0 < x" using assms by simp
  have k0: "0 \<le> k" unfolding k_def using assms by (simp add: zero_le_log_cancel_iff)
  have "max k (- 1022) = k" using k0 by linarith
  moreover have "\<bar>x\<bar> = x" using x0 by simp
  ultimately have e: "ulp_exp x = k - 52" unfolding ulp_exp_def k_def by (simp only:)
  have lo: "2 powi k \<le> x" unfolding k_def using floor_log2_bounds(1) [OF x0] .
  have "of_int (2 ^ 52) * 2 powi ulp_exp x \<le> rnd x"
  proof (rule rnd_lower)
    show "x \<noteq> 0" using x0 by simp
    show "of_int (2 ^ 52) * 2 powi ulp_exp x \<le> x" using lo by (simp only: e pow52_shift)
  qed
  then have "2 powi k \<le> rnd x" by (simp only: e pow52_shift)
  moreover have "(1::real) \<le> 2 powi k" using k0 by (simp add: one_le_power_int)
  ultimately show ?thesis by linarith
qed






lemma rnd_dyadic:
  assumes x: "x = of_int n * 2 powi e" and n: "\<bar>n\<bar> < 2 ^ 53" and e: "- 1074 \<le> e"
  shows "rnd x = x"
proof (cases "n = 0")
  case True
  then show ?thesis by (simp add: x rnd_0)
next
  case False
  then have x0: "x \<noteq> 0" by (simp add: x)
  then have ax: "0 < \<bar>x\<bar>" by simp
  define k where "k = \<lfloor>log 2 \<bar>x\<bar>\<rfloor>"
  have lo: "2 powi k \<le> \<bar>x\<bar>" unfolding k_def using floor_log2_bounds(1) [OF ax] .
  have "\<bar>x\<bar> = of_int \<bar>n\<bar> * 2 powi e" by (simp add: x abs_mult)
  also have "\<dots> < of_int (2 ^ 53) * 2 powi e"
  proof (rule mult_strict_right_mono)
    show "(of_int \<bar>n\<bar> :: real) < of_int (2 ^ 53)" using n by (simp only: of_int_less_iff)
    show "(0::real) < 2 powi e" by simp
  qed
  also have "\<dots> = 2 powi (53 + e)" by (simp add: power_int_add)
  finally have "(2::real) powi k < 2 powi (53 + e)" using lo by linarith
  then have kle: "k < 53 + e"
    using power_int_increasing [of "53 + e" k "2::real"] by (cases "k < 53 + e") auto
  define u where "u = ulp_exp x"
  have ue: "u \<le> e" using kle e unfolding u_def ulp_exp_def k_def by linarith
  have "x / 2 powi u = of_int n * 2 powi (e - u)"
    by (simp add: x power_int_diff)
  also have "\<dots> = of_int (n * 2 ^ nat (e - u))"
    using ue by (simp add: power_int_def)
  finally have q: "x / 2 powi u = of_int (n * 2 ^ nat (e - u))" .
  have "rnd x = of_int (n * 2 ^ nat (e - u)) * 2 powi u"
    using x0 by (simp only: rnd_def u_def [symmetric] q round_half_even_of_int if_False)
  also have "\<dots> = of_int n * 2 powi (e - u) * 2 powi u"
    using ue by (simp add: power_int_def)
  also have "\<dots> = x" by (simp add: x power_int_diff)
  finally show ?thesis .
qed

lemma rnd_int: "\<bar>n\<bar> < 2 ^ 53 \<Longrightarrow> rnd (of_int n) = of_int n"
  using rnd_dyadic [of "of_int n" n 0] by simp

lemma rnd_small [simp]:
  "rnd 1 = 1" "rnd (- 1) = - 1" "rnd 2 = 2" "rnd (- 2) = - 2" "rnd 4 = 4" "rnd 0 = 0"
  using rnd_int [of 1] rnd_int [of "- 1"] rnd_int [of 2] rnd_int [of "- 2"] rnd_int [of 4] rnd_0
  by simp_all

lemma rnd_half [simp]: "rnd (1 / 2) = 1 / 2"
  using rnd_dyadic [of "1 / 2" 1 "- 1"] by (simp add: power_int_minus)

subsection \<open>Progress\<close>

lemma to_number_0: "to_number 0 = Fin 0"
  by (simp add: to_number_def rnd_0)


lemma min1_to_number_ge_1:
  assumes "1 \<le> x"
  shows "math_min (to_number x) (Fin 1) = Fin 1"
proof -
  have "1 \<le> rnd x" using assms by (rule rnd_ge_1)
  then show ?thesis by (auto simp: to_number_def Let_def min_def)
qed


lemma progress_complete:
  assumes "duration a = Fin d" and "0 < d" and "d \<le> of_int (now - startTime a)"
  shows "progress_at now a = Fin 1"
proof -
  have "1 \<le> of_int (now - startTime a) / d" using assms by (simp add: pos_le_divide_eq)
  then show ?thesis
    using assms(1,2) min1_to_number_ge_1 by (simp add: progress_at_def)
qed

lemma progress_start:
  assumes "duration a = Fin d" and "0 < d" and "now = startTime a"
  shows "progress_at now a = Fin 0"
  using assms by (simp add: progress_at_def to_number_0)


subsection \<open>Reachable states\<close>

lemma run_append: "run (xs @ ys) m = run ys (run xs m)"
  by (induction xs arbitrary: m) simp_all

lemma reachable_driver_inv: "driver_inv (run ss (constructor w))"
  by (simp add: driver_inv_run driver_inv_constructor)

lemma reachable_ids_inv: "ids_inv (run ss (constructor w))"
  by (simp add: ids_inv_run ids_inv_constructor)

lemma add_stopped:
  "\<not> isRunning m \<Longrightarrow>
     add upd dur oc t_add t_tick m =
       (nextObj m,
        update t_tick
          (m\<lparr>activeAnimations := activeAnimations m @
                [\<lparr>aid = nextObj m, startTime = t_add, duration = dur, updateFn = upd,
                  onComplete = oc, cancelled = False\<rparr>],
              nextObj := Suc (nextObj m), isRunning := True\<rparr>))"
  by (simp add: add_def start_def Let_def)

lemma add_running:
  "isRunning m \<Longrightarrow>
     add upd dur oc t_add t_tick m =
       (nextObj m,
        m\<lparr>activeAnimations := activeAnimations m @
                [\<lparr>aid = nextObj m, startTime = t_add, duration = dur, updateFn = upd,
                  onComplete = oc, cancelled = False\<rparr>],
            nextObj := Suc (nextObj m)\<rparr>)"
  by (simp add: add_def start_def Let_def)

lemma frame_running:
  assumes "driver_inv m" and "activeAnimations m \<noteq> []"
  shows "frame now m = update now (m\<lparr>pendingFrames := []\<rparr>)"
  using assms by (simp add: driver_inv_def frame_def)


lemma demo_state:
  "run demo_steps (constructor 0) =
     \<lparr>activeAnimations = [demo_anim], isRunning = True, animationId = Some 1,
      pendingFrames = [1], frameCounter = 1, nextObj = 1,
      calls = [UpdateCall 0 (Fin 0) 0], world = 1\<rparr>"
  by (simp add: demo_steps_def demo_anim_def constructor_def add_def start_def update_def
      visit_def progress_at_def to_number_0 requestAnimationFrame_def count_update_def Let_def)









lemma cancel_member:
  assumes "b \<in> set (activeAnimations (cancel h m))"
  shows "\<exists>a. b = (if aid a = h then a\<lparr>cancelled := True\<rparr> else a)"
proof -
  from assms have "b \<in> (\<lambda>a. if aid a = h then a\<lparr>cancelled := True\<rparr> else a) ` set (activeAnimations m)"
    by (simp add: cancel_def)
  then show ?thesis by (rule imageE) (rule exI)
qed

lemma silent_cancel_self:
  assumes "h < nextObj m"
  shows "silent h (cancel h m)"
  unfolding silent_def
proof (intro conjI ballI impI)
  show "h < nextObj (cancel h m)" using assms by (simp add: cancel_def)
next
  fix b
  assume "b \<in> set (activeAnimations (cancel h m))" and h: "aid b = h"
  then obtain a where b: "b = (if aid a = h then a\<lparr>cancelled := True\<rparr> else a)"
    using cancel_member by blast
  show "cancelled b"
  proof (cases "aid a = h")
    case True
    with b show ?thesis by simp
  next
    case False
    with b have "b = a" by simp
    with h False show ?thesis by simp
  qed
qed

text \<open>
  Claim C2. Once \<open>cancel\<close> has been called on a handle that \<open>add\<close> returned, no run of
  further steps adds a call of that animation's update function or completion callback
  to the record, and the animation is not in the active list after the next frame
  callback. In particular an animation added while the loop was running and cancelled
  before any tick has no call at all, whatever happens afterwards.
\<close>

theorem cancelled_animation_is_never_invoked:
  fixes w :: 'w
  assumes "m = run ss (constructor w)" and "h < nextObj m"
  shows "(\<forall>ss'. calls_of h (calls (run ss' (cancel h m))) = calls_of h (calls m)) \<and>
         h \<notin> aid ` set (activeAnimations (frame now (cancel h m))) \<and>
         (isRunning m \<longrightarrow>
            (\<forall>ss'. calls_of (fst (add upd dur oc t_add t_tick m))
                     (calls (run ss' (cancel (fst (add upd dur oc t_add t_tick m))
                                             (snd (add upd dur oc t_add t_tick m))))) = []))"
proof -
  have di: "driver_inv m" and ii: "ids_inv m"
    unfolding assms(1) by (rule reachable_driver_inv, rule reachable_ids_inv)
  have s: "silent h (cancel h m)" using assms(2) by (rule silent_cancel_self)
  have 1: "calls_of h (calls (run ss' (cancel h m))) = calls_of h (calls m)" for ss'
    using silent_run [OF s, of ss'] by (simp add: cancel_def)
  have 2: "h \<notin> aid ` set (activeAnimations (frame now (cancel h m)))"
  proof (cases "activeAnimations m = []")
    case True
    then show ?thesis using di by (simp add: frame_def cancel_def driver_inv_def)
  next
    case False
    have dc: "driver_inv (cancel h m)" using di by (rule driver_inv_cancel)
    have ne: "activeAnimations (cancel h m) \<noteq> []" using False by (simp add: cancel_def)
    have ns: "\<not> stays now b" if "b \<in> set (activeAnimations (cancel h m))" and "aid b = h" for b
      using s that by (simp add: silent_def stays_def)
    have fr: "activeAnimations (frame now (cancel h m))
        = filter (stays now) (activeAnimations (cancel h m))"
      by (simp add: frame_running [OF dc ne] update_fields)
    show ?thesis
    proof
      assume "h \<in> aid ` set (activeAnimations (frame now (cancel h m)))"
      then obtain b where "b \<in> set (activeAnimations (cancel h m))" and "stays now b"
        and "aid b = h"
        unfolding fr by auto
      then show False using ns by blast
    qed
  qed
  have 3: "calls_of (fst (add upd dur oc t_add t_tick m))
                     (calls (run ss' (cancel (fst (add upd dur oc t_add t_tick m))
                                             (snd (add upd dur oc t_add t_tick m))))) = []"
    if r: "isRunning m" for ss'
  proof -
    let ?m0 = "snd (add upd dur oc t_add t_tick m)"
    have h': "fst (add upd dur oc t_add t_tick m) = nextObj m"
      and n0: "nextObj ?m0 = Suc (nextObj m)" and c0: "calls ?m0 = calls m"
      by (simp_all add: add_running [OF r])
    have "silent (nextObj m) (cancel (nextObj m) ?m0)"
      by (rule silent_cancel_self) (simp add: n0)
    then have "calls_of (nextObj m) (calls (run ss' (cancel (nextObj m) ?m0)))
        = calls_of (nextObj m) (calls (cancel (nextObj m) ?m0))"
      by (simp add: silent_run)
    also have "\<dots> = calls_of (nextObj m) (calls m)" by (simp add: cancel_def c0)
    also have "\<dots> = []" using ii by (intro calls_of_fresh) (simp add: ids_inv_def)
    finally show ?thesis by (simp only: h')
  qed
  show ?thesis
    by (intro conjI allI impI) (rule 1, rule 2, rule 3)
qed

theorem cancelled_animation_is_never_invoked_witness:
  "calls_of 0 (calls (run [Frame 100, Frame 600] (cancel 0 (run demo_steps (constructor 0)))))
     = [UpdateCall 0 (Fin 0) 0] \<and>
   0 \<notin> aid ` set (activeAnimations (frame 100 (cancel 0 (run demo_steps (constructor 0))))) \<and>
   calls_of 1 (calls (run [Frame 100, Frame 600]
     (cancel 1 (snd (add count_update (Fin 300) None 50 50 (run demo_steps (constructor 0)))))))
     = []"
proof -
  have n: "0 < nextObj (run demo_steps (constructor 0))"
    and r: "isRunning (run demo_steps (constructor 0))"
    and f: "fst (add count_update (Fin 300) None 50 50 (run demo_steps (constructor 0))) = 1"
    and c: "calls_of 0 (calls (run demo_steps (constructor 0))) = [UpdateCall 0 (Fin 0) 0]"
    by (simp_all add: demo_state add_def calls_of_def)
  show ?thesis
    using cancelled_animation_is_never_invoked
      [where m = "run demo_steps (constructor 0)" and ss = demo_steps and w = 0 and h = 0
         and now = 100 and upd = count_update and dur = "Fin 300" and oc = None
         and t_add = 50 and t_tick = 50]
      n r f c
    by (simp del: run.simps)
qed

text \<open>
  Claim C10. When the loop is not running, \<open>add\<close> returns the identity of the new
  animation, for which no call has been made before, and has already called its update
  function once, with the progress and elapsed time of the tick that \<open>add\<close> ran (and the
  completion callback after it, if that progress is 1). For a positive duration and no
  time elapsed between the two clock readings the call is \<open>updateFn(0, 0)\<close>, its effect
  is in the scene state, and the animation is active with the loop running.
\<close>

theorem add_ticks_synchronously:
  fixes w :: 'w
  assumes "m = run ss (constructor w)" and "\<not> isRunning m"
  shows "fst (add upd dur oc t_add t_tick m) = nextObj m \<and>
         calls_of (nextObj m) (calls m) = [] \<and>
         calls (snd (add upd dur oc t_add t_tick m)) =
           calls m @
           UpdateCall (nextObj m)
             (math_min (js_div (Fin (of_int (t_tick - t_add))) dur) (Fin 1)) (t_tick - t_add) #
           (if js_ge (math_min (js_div (Fin (of_int (t_tick - t_add))) dur) (Fin 1)) (Fin 1)
               \<and> oc \<noteq> None
            then [CompleteCall (nextObj m)] else []) \<and>
         (\<forall>d. dur = Fin d \<longrightarrow> 0 < d \<longrightarrow> t_tick = t_add \<longrightarrow>
            calls (snd (add upd dur oc t_add t_tick m)) =
              calls m @ [UpdateCall (nextObj m) (Fin 0) 0] \<and>
            world (snd (add upd dur oc t_add t_tick m)) = upd (Fin 0) 0 (world m) \<and>
            isRunning (snd (add upd dur oc t_add t_tick m)) \<and>
            map aid (activeAnimations (snd (add upd dur oc t_add t_tick m))) = [nextObj m])"
proof -
  have di: "driver_inv m" and ii: "ids_inv m"
    unfolding assms(1) by (rule reachable_driver_inv, rule reachable_ids_inv)
  have e: "activeAnimations m = []" using di assms(2) by (simp add: driver_inv_def)
  have 1: "fst (add upd dur oc t_add t_tick m) = nextObj m"
    by (simp add: add_stopped [OF assms(2)])
  have 2: "calls_of (nextObj m) (calls m) = []"
    using ii by (intro calls_of_fresh) (simp add: ids_inv_def)
  have 3: "calls (snd (add upd dur oc t_add t_tick m)) =
           calls m @
           UpdateCall (nextObj m)
             (math_min (js_div (Fin (of_int (t_tick - t_add))) dur) (Fin 1)) (t_tick - t_add) #
           (if js_ge (math_min (js_div (Fin (of_int (t_tick - t_add))) dur) (Fin 1)) (Fin 1)
               \<and> oc \<noteq> None
            then [CompleteCall (nextObj m)] else [])"
    by (simp add: add_stopped [OF assms(2)] update_fields e visit_calls_def progress_at_def)
  have 4: "calls (snd (add upd dur oc t_add t_tick m)) =
              calls m @ [UpdateCall (nextObj m) (Fin 0) 0] \<and>
            world (snd (add upd dur oc t_add t_tick m)) = upd (Fin 0) 0 (world m) \<and>
            isRunning (snd (add upd dur oc t_add t_tick m)) \<and>
            map aid (activeAnimations (snd (add upd dur oc t_add t_tick m))) = [nextObj m]"
    if "dur = Fin d" and "0 < d" and "t_tick = t_add" for d
    using that
    by (simp add: add_stopped [OF assms(2)] update_fields update_driver e visit_calls_def
        visit_world_def stays_def progress_at_def to_number_0)
  from 1 2 3 4 show ?thesis by blast
qed

theorem add_ticks_synchronously_witness:
  "calls (snd (add count_update (Fin 500) None 7 7 (run [] (constructor (0::nat)))))
     = [UpdateCall 0 (Fin 0) 0] \<and>
   world (snd (add count_update (Fin 500) None 7 7 (run [] (constructor (0::nat))))) = 1"
proof -
  have s: "\<not> isRunning (run [] (constructor (0::nat)))"
    and n: "nextObj (run [] (constructor (0::nat))) = 0"
    and c: "calls (run [] (constructor (0::nat))) = []"
    and w: "world (run [] (constructor (0::nat))) = 0"
    by (simp_all add: constructor_def)
  show ?thesis
    using add_ticks_synchronously
      [where m = "run [] (constructor (0::nat))" and ss = "[]" and w = 0
         and upd = count_update and dur = "Fin 500" and oc = None and t_add = 7 and t_tick = 7]
      s n c w
    by (simp add: count_update_def to_number_0 del: run.simps)
qed

section \<open>Properties of the easing functions\<close>

lemma Math_pow_nat [simp]:
  "Math_pow b 2 = rnd (b ^ 2)" "Math_pow b 3 = rnd (b ^ 3)"
  by (simp_all add: Math_pow_def)




























section \<open>Properties of the pools\<close>

subsection \<open>Ball pool: what release does to the lists\<close>

lemma label_release_fields [simp]:
  "ballPool (label_release l s) = ballPool s"
  "balls (label_release l s) = balls s"
  "nextRef (label_release l s) = nextRef s"
  "built (label_release l s) = built s"
  by (simp_all add: label_release_def Let_def)

lemma detach_label_fields [simp]:
  "ballPool (detach_label b s) = ballPool s"
  "nextRef (detach_label b s) = nextRef s"
  "built (detach_label b s) = built s"
  by (simp_all add: detach_label_def Let_def split: option.split)

lemma return_to_pool_lists:
  "BallPool.active (ballPool (return_to_pool b s)) = remove1 b (BallPool.active (ballPool s))"
  "BallPool.pool (ballPool (return_to_pool b s)) =
     (if b \<in> set (BallPool.active (ballPool s)) then BallPool.pool (ballPool s) @ [b]
      else BallPool.pool (ballPool s))"
  "labelPool (ballPool (return_to_pool b s)) = labelPool (ballPool s)"
  "balls (return_to_pool b s) = balls s"
  "labels (return_to_pool b s) = labels s"
  "lblPool (return_to_pool b s) = lblPool s"
  "nextRef (return_to_pool b s) = nextRef s"
  "built (return_to_pool b s) = built s"
  by (simp_all add: return_to_pool_def remove1_idem)

lemma release_lists:
  "BallPool.active (ballPool (release b s)) = remove1 b (BallPool.active (ballPool s))"
  "BallPool.pool (ballPool (release b s)) =
     (if b \<in> set (BallPool.active (ballPool s)) then BallPool.pool (ballPool s) @ [b]
      else BallPool.pool (ballPool s))"
  "labelPool (ballPool (release b s)) = labelPool (ballPool s)"
  "nextRef (release b s) = nextRef s"
  "built (release b s) = built s"
  by (simp_all add: release_def return_to_pool_lists)

lemma detach_label_balls_other:
  "b' \<noteq> b \<Longrightarrow> balls (detach_label b s) b' = balls s b'"
  by (simp add: detach_label_def Let_def split: option.split)

lemma detach_label_visible:
  "visible (balls (detach_label b s) b') = visible (balls s b')"
  by (simp add: detach_label_def Let_def split: option.split)

lemma release_visible:
  "visible (balls (release b s) b') = (b' \<noteq> b \<and> visible (balls s b'))"
  by (simp add: release_def return_to_pool_lists detach_label_visible reset_ball_def)

lemma release_fold:
  "BallPool.active (ballPool s) = xs @ ys \<Longrightarrow>
     BallPool.active (ballPool (foldl (\<lambda>s' ball. release ball s') s xs)) = ys \<and>
     BallPool.pool (ballPool (foldl (\<lambda>s' ball. release ball s') s xs))
       = BallPool.pool (ballPool s) @ xs"
proof (induction xs arbitrary: s)
  case Nil
  then show ?case by simp
next
  case (Cons x xs)
  have "BallPool.active (ballPool (release x s)) = xs @ ys"
    using Cons.prems by (simp add: release_lists)
  from Cons.IH [OF this] show ?case
    using Cons.prems by (simp add: release_lists)
qed

lemma release_fold_hidden:
  "b \<in> set xs \<or> \<not> visible (balls s b) \<Longrightarrow>
     \<not> visible (balls (foldl (\<lambda>s' ball. release ball s') s xs) b)"
proof (induction xs arbitrary: s)
  case Nil
  then show ?case by simp
next
  case (Cons x xs)
  have "b \<in> set xs \<or> \<not> visible (balls (release x s) b)"
    using Cons.prems by (auto simp: release_visible)
  from Cons.IH [OF this] show ?case by simp
qed

text \<open>
  Claim C5. \<open>releaseAll\<close> on any pool leaves the active list empty and appends the
  instances that were active to the free list, in their order, so the free list grows by
  exactly their number; every one of them has been hidden by its \<open>release\<close>. The loop
  runs over the copy of the active list taken before the first \<open>release\<close>.
\<close>

theorem releaseAll_releases_every_active:
  "BallPool.active (ballPool (releaseAll s)) = [] \<and>
   BallPool.pool (ballPool (releaseAll s))
     = BallPool.pool (ballPool s) @ BallPool.active (ballPool s) \<and>
   length (BallPool.pool (ballPool (releaseAll s)))
     = length (BallPool.pool (ballPool s)) + length (BallPool.active (ballPool s)) \<and>
   (\<forall>b \<in> set (BallPool.active (ballPool s)). \<not> visible (balls (releaseAll s) b))"
  using release_fold [of s "BallPool.active (ballPool s)" "[]"]
    release_fold_hidden [of _ "BallPool.active (ballPool s)" s]
  by (simp add: releaseAll_def)

theorem releaseAll_releases_every_active_witness:
  "BallPool.active (ballPool (releaseAll (snd (acquire 7 start_state)))) = [] \<and>
   BallPool.pool (ballPool (releaseAll (snd (acquire 7 start_state)))) = [0] \<and>
   \<not> visible (balls (releaseAll (snd (acquire 7 start_state))) 0)"
proof -
  have "ballPool (snd (acquire 7 start_state))
      = \<lparr>BallPool.pool = [], BallPool.active = [0], labelPool = False\<rparr>"
    by (simp add: acquire_def createBall_def scene_add_def start_state_def fresh_state_def
        Let_def)
  then show ?thesis
    using releaseAll_releases_every_active [of "snd (acquire 7 start_state)"] by simp
qed






















lemma label_acquire_no_font:
  "loadedFont (lblPool s) = None \<Longrightarrow> label_acquire n s = (None, s)"
  by (simp add: label_acquire_def)

lemma label_acquire_cached:
  assumes "loadedFont (lblPool s) = Some f" and "LabelPool.pool (lblPool s) (toString n) = Some t"
  shows "fst (label_acquire n s) = Some (nextRef s)"
    and "built (snd (label_acquire n s)) = built s @ [LabelCloned t (nextRef s)]"
    and "LabelPool.pool (lblPool (snd (label_acquire n s))) = LabelPool.pool (lblPool s)"
    and "loadedFont (lblPool (snd (label_acquire n s))) = Some f"
    and "LabelPool.active (lblPool (snd (label_acquire n s)))
           = LabelPool.active (lblPool s) @ [nextRef s]"
    and "nextRef (snd (label_acquire n s)) = Suc (nextRef s + length (children (labels s t)))"
    and "labels (snd (label_acquire n s)) =
           (labels s)(nextRef s := (labels s t)
              \<lparr>children := map (\<lambda>i. Suc (nextRef s + i)) [0 ..< length (children (labels s t))],
               visible := True\<rparr>)"
  using assms by (simp_all add: label_acquire_def clone_def Let_def)

lemma label_acquire_fresh:
  assumes "loadedFont (lblPool s) = Some f" and "LabelPool.pool (lblPool s) (toString n) = None"
  shows "fst (label_acquire n s) = Some (nextRef s + 3)"
    and "built (snd (label_acquire n s))
           = built s @ [LabelBuilt (toString n) (nextRef s), LabelCloned (nextRef s) (nextRef s + 3)]"
    and "LabelPool.pool (lblPool (snd (label_acquire n s)))
           = (LabelPool.pool (lblPool s))(toString n \<mapsto> nextRef s)"
    and "loadedFont (lblPool (snd (label_acquire n s))) = Some f"
    and "LabelPool.active (lblPool (snd (label_acquire n s)))
           = LabelPool.active (lblPool s) @ [nextRef s + 3]"
    and "nextRef (snd (label_acquire n s)) = nextRef s + 6"
    and "\<not> visible (labels (snd (label_acquire n s)) (nextRef s))"
    and "visible (labels (snd (label_acquire n s)) (nextRef s + 3))"
    and "labelText (labels (snd (label_acquire n s)) (nextRef s + 3)) = toString n"
    and "length (children (labels (snd (label_acquire n s)) (nextRef s))) = 2"
  using assms by (simp_all add: label_acquire_def createLabel_def clone_def Let_def)


text \<open>
  Claim C7. Without a font \<open>acquire\<close> returns \<open>null\<close> and leaves the state as it was.
  With a font and no template yet for the number, two successive calls return two
  different new objects, both different from the template; the template is the object
  cached under the key after each call; the constructions are one template and then one
  clone of it per call, so the second call builds no template. With a font and a cached
  template, a call clones that template and builds nothing else.
\<close>

theorem label_acquire_twice:
  "(loadedFont (lblPool s) = None \<longrightarrow> label_acquire n s = (None, s)) \<and>
   (loadedFont (lblPool s) \<noteq> None \<and> LabelPool.pool (lblPool s) (toString n) = None \<longrightarrow>
      fst (label_acquire n s) = Some (nextRef s + 3) \<and>
      fst (label_acquire n (snd (label_acquire n s))) = Some (nextRef s + 6) \<and>
      LabelPool.pool (lblPool (snd (label_acquire n s))) (toString n) = Some (nextRef s) \<and>
      LabelPool.pool (lblPool (snd (label_acquire n (snd (label_acquire n s))))) (toString n)
        = Some (nextRef s) \<and>
      built (snd (label_acquire n s))
        = built s @ [LabelBuilt (toString n) (nextRef s),
                     LabelCloned (nextRef s) (nextRef s + 3)] \<and>
      built (snd (label_acquire n (snd (label_acquire n s))))
        = built (snd (label_acquire n s)) @ [LabelCloned (nextRef s) (nextRef s + 6)] \<and>
      LabelPool.active (lblPool (snd (label_acquire n (snd (label_acquire n s)))))
        = LabelPool.active (lblPool s) @ [nextRef s + 3, nextRef s + 6]) \<and>
   (loadedFont (lblPool s) \<noteq> None \<longrightarrow>
      (\<forall>t. LabelPool.pool (lblPool s) (toString n) = Some t \<longrightarrow>
         fst (label_acquire n s) = Some (nextRef s) \<and>
         built (snd (label_acquire n s)) = built s @ [LabelCloned t (nextRef s)] \<and>
         LabelPool.pool (lblPool (snd (label_acquire n s))) = LabelPool.pool (lblPool s)))"
proof -
  have 1: "loadedFont (lblPool s) = None \<longrightarrow> label_acquire n s = (None, s)"
    by (simp add: label_acquire_no_font)
  have 2: "fst (label_acquire n s) = Some (nextRef s + 3) \<and>
      fst (label_acquire n (snd (label_acquire n s))) = Some (nextRef s + 6) \<and>
      LabelPool.pool (lblPool (snd (label_acquire n s))) (toString n) = Some (nextRef s) \<and>
      LabelPool.pool (lblPool (snd (label_acquire n (snd (label_acquire n s))))) (toString n)
        = Some (nextRef s) \<and>
      built (snd (label_acquire n s))
        = built s @ [LabelBuilt (toString n) (nextRef s),
                     LabelCloned (nextRef s) (nextRef s + 3)] \<and>
      built (snd (label_acquire n (snd (label_acquire n s))))
        = built (snd (label_acquire n s)) @ [LabelCloned (nextRef s) (nextRef s + 6)] \<and>
      LabelPool.active (lblPool (snd (label_acquire n (snd (label_acquire n s)))))
        = LabelPool.active (lblPool s) @ [nextRef s + 3, nextRef s + 6]"
    if "loadedFont (lblPool s) \<noteq> None \<and> LabelPool.pool (lblPool s) (toString n) = None"
  proof -
    let ?s1 = "snd (label_acquire n s)"
    from that obtain f where f: "loadedFont (lblPool s) = Some f"
      and k: "LabelPool.pool (lblPool s) (toString n) = None" by auto
    note a = label_acquire_fresh [OF f k]
    have f1: "loadedFont (lblPool ?s1) = Some f" by (rule a(4))
    have k1: "LabelPool.pool (lblPool ?s1) (toString n) = Some (nextRef s)" by (simp add: a(3))
    note b = label_acquire_cached [OF f1 k1]
    show ?thesis
      by (simp add: a(1,2,3,5,6) b(1,2,3,5))
  qed
  have 3: "\<forall>t. LabelPool.pool (lblPool s) (toString n) = Some t \<longrightarrow>
         fst (label_acquire n s) = Some (nextRef s) \<and>
         built (snd (label_acquire n s)) = built s @ [LabelCloned t (nextRef s)] \<and>
         LabelPool.pool (lblPool (snd (label_acquire n s))) = LabelPool.pool (lblPool s)"
    if "loadedFont (lblPool s) \<noteq> None"
  proof -
    from that obtain f where f: "loadedFont (lblPool s) = Some f" by auto
    show ?thesis by (simp add: label_acquire_cached [OF f])
  qed
  from 1 2 3 show ?thesis by blast
qed

lemma start_with_font:
  "loadedFont (lblPool (setFont start_state)) \<noteq> None"
  "LabelPool.pool (lblPool (setFont start_state)) k = None"
  "nextRef (setFont start_state) = 0"
  "built (setFont start_state) = []"
  "loadedFont (lblPool start_state) = None"
  by (simp_all add: setFont_def start_state_def fresh_state_def)

theorem label_acquire_twice_witness:
  "fst (label_acquire 7 (setFont start_state)) = Some 3 \<and>
   fst (label_acquire 7 (snd (label_acquire 7 (setFont start_state)))) = Some 6 \<and>
   built (snd (label_acquire 7 (snd (label_acquire 7 (setFont start_state)))))
     = [LabelBuilt ''7'' 0, LabelCloned 0 3, LabelCloned 0 6] \<and>
   label_acquire 7 start_state = (None, start_state)"
proof -
  have t: "toString 7 = ''7''" by (simp add: toString_def)
  show ?thesis
    using label_acquire_twice [of "setFont start_state" 7] label_acquire_twice [of start_state 7]
    by (simp add: start_with_font t)
qed

lemma createBall_fields:
  "fst (createBall s) = nextRef s"
  "ballPool (snd (createBall s)) = ballPool s"
  "nextRef (snd (createBall s)) = Suc (Suc (nextRef s))"
  "built (snd (createBall s)) = built s @ [BallBuilt (nextRef s)]"
  "sceneChildren (snd (createBall s)) = sceneChildren s"
  by (simp_all add: createBall_def Let_def)

lemma acquire_pop:
  assumes "BallPool.pool (ballPool s) = p @ [b]"
  shows "fst (acquire c s) = b"
    and "ballPool (snd (acquire c s))
           = (ballPool s)\<lparr>BallPool.pool := p,
                           BallPool.active := BallPool.active (ballPool s) @ [b]\<rparr>"
    and "nextRef (snd (acquire c s)) = nextRef s"
    and "built (snd (acquire c s)) = built s"
    and "visible (balls (snd (acquire c s)) b)"
  using assms by (simp_all add: acquire_def Let_def)

lemma acquire_new:
  assumes "BallPool.pool (ballPool s) = []"
  shows "fst (acquire c s) = nextRef s"
    and "ballPool (snd (acquire c s))
           = (ballPool s)\<lparr>BallPool.active := BallPool.active (ballPool s) @ [nextRef s]\<rparr>"
    and "nextRef (snd (acquire c s)) = Suc (Suc (nextRef s))"
    and "built (snd (acquire c s)) = built s @ [BallBuilt (nextRef s)]"
  using assms by (simp_all add: acquire_def createBall_def scene_add_def Let_def)

lemma acquire_all_pop:
  "BallPool.pool (ballPool s) = p @ rev bs \<Longrightarrow> length cs = length bs \<Longrightarrow>
     fst (acquire_all cs s) = bs \<and>
     ballPool (snd (acquire_all cs s))
       = (ballPool s)\<lparr>BallPool.pool := p,
                       BallPool.active := BallPool.active (ballPool s) @ bs\<rparr> \<and>
     nextRef (snd (acquire_all cs s)) = nextRef s \<and>
     built (snd (acquire_all cs s)) = built s"
proof (induction cs arbitrary: s bs)
  case Nil
  then show ?case by simp
next
  case (Cons c cs)
  then obtain b bs' where bs: "bs = b # bs'" by (cases bs) auto
  with Cons.prems have p: "BallPool.pool (ballPool s) = (p @ rev bs') @ [b]" by simp
  note a = acquire_pop [OF p, of c]
  have "BallPool.pool (ballPool (snd (acquire c s))) = p @ rev bs'" by (simp add: a(2))
  moreover have "length cs = length bs'" using Cons.prems bs by simp
  ultimately have ih: "fst (acquire_all cs (snd (acquire c s))) = bs' \<and>
     ballPool (snd (acquire_all cs (snd (acquire c s))))
       = (ballPool (snd (acquire c s)))\<lparr>BallPool.pool := p,
            BallPool.active := BallPool.active (ballPool (snd (acquire c s))) @ bs'\<rparr> \<and>
     nextRef (snd (acquire_all cs (snd (acquire c s)))) = nextRef (snd (acquire c s)) \<and>
     built (snd (acquire_all cs (snd (acquire c s)))) = built (snd (acquire c s))"
    by (rule Cons.IH)
  show ?case
    using ih by (simp add: bs a split_beta Let_def)
qed

lemma acquire_all_new:
  "BallPool.pool (ballPool s) = [] \<Longrightarrow>
     fst (acquire_all cs s) = map (\<lambda>i. nextRef s + 2 * i) [0 ..< length cs] \<and>
     ballPool (snd (acquire_all cs s))
       = (ballPool s)\<lparr>BallPool.active := BallPool.active (ballPool s)
                         @ map (\<lambda>i. nextRef s + 2 * i) [0 ..< length cs]\<rparr> \<and>
     nextRef (snd (acquire_all cs s)) = nextRef s + 2 * length cs \<and>
     built (snd (acquire_all cs s))
       = built s @ map (\<lambda>i. BallBuilt (nextRef s + 2 * i)) [0 ..< length cs]"
proof (induction cs arbitrary: s)
  case Nil
  then show ?case by simp
next
  case (Cons c cs)
  note a = acquire_new [OF Cons.prems, of c]
  have "BallPool.pool (ballPool (snd (acquire c s))) = []"
    using Cons.prems by (simp add: a(2))
  note ih = Cons.IH [OF this]
  show ?case
    using ih by (simp add: a split_beta Let_def map_upt_Suc del: upt_Suc)
qed

lemma acquire_all_append:
  "acquire_all (xs @ ys) s =
     (fst (acquire_all xs s) @ fst (acquire_all ys (snd (acquire_all xs s))),
      snd (acquire_all ys (snd (acquire_all xs s))))"
  by (induction xs arbitrary: s) (simp_all add: split_beta Let_def)

lemma initialize_body_fields:
  "ballPool (initialize_body s)
     = (ballPool s)\<lparr>BallPool.pool := BallPool.pool (ballPool s) @ [nextRef s]\<rparr>"
  "nextRef (initialize_body s) = Suc (Suc (nextRef s))"
  "built (initialize_body s) = built s @ [BallBuilt (nextRef s)]"
  "sceneChildren (initialize_body s) = sceneChildren s @ [nextRef s]"
  "\<not> visible (balls (initialize_body s) (nextRef s))"
  by (simp_all add: initialize_body_def createBall_def scene_add_def Let_def)

lemma initialize_loop_fields:
  "ballPool (initialize_loop i n s)
     = (ballPool s)\<lparr>BallPool.pool := BallPool.pool (ballPool s)
                       @ map (\<lambda>j. nextRef s + 2 * j) [0 ..< nat (n - i)]\<rparr> \<and>
   nextRef (initialize_loop i n s) = nextRef s + 2 * nat (n - i) \<and>
   built (initialize_loop i n s)
     = built s @ map (\<lambda>j. BallBuilt (nextRef s + 2 * j)) [0 ..< nat (n - i)]"
proof (induction i n s rule: initialize_loop.induct)
  case (1 i maxSize s)
  show ?case
  proof (cases "i < maxSize")
    case False
    then show ?thesis by simp
  next
    case True
    then have k: "nat (maxSize - i) = Suc (nat (maxSize - (i + 1)))" by simp
    show ?thesis
      using "1.IH" [OF True] True
      by (subst (1 2 3) initialize_loop.simps)
        (simp add: k initialize_body_fields map_upt_Suc del: upt_Suc initialize_loop.simps)
  qed
qed


lemma evens_10: "map (\<lambda>j. 2 * j) [0 ..< 10] = [0, 2, 4, 6, 8, 10, 12, 14, 16, 18 :: nat]"
  by (simp add: upt_rec)

lemma built_10:
  "map (\<lambda>j. BallBuilt (2 * j)) [0 ..< 10] = map BallBuilt [0, 2, 4, 6, 8, 10, 12, 14, 16, 18]"
  by (simp add: upt_rec)

lemma initialize_10:
  "BallPool.pool (ballPool (initialize 10 (fresh_state bs ls)))
     = [0, 2, 4, 6, 8, 10, 12, 14, 16, 18]"
  "BallPool.active (ballPool (initialize 10 (fresh_state bs ls))) = []"
  "nextRef (initialize 10 (fresh_state bs ls)) = 20"
  "built (initialize 10 (fresh_state bs ls))
     = map BallBuilt [0, 2, 4, 6, 8, 10, 12, 14, 16, 18]"
  using initialize_loop_fields [of 0 10 "fresh_state bs ls"] evens_10 built_10
  by (simp_all add: initialize_def fresh_state_def del: initialize_loop.simps)

text \<open>
  Claim C6. After \<open>initialize(10)\<close> on a fresh pool the free list holds ten new
  instances. Twelve calls of \<open>acquire\<close>, with any colours, return first those ten, last
  one first, without constructing anything, and then two newly constructed instances.
  All twelve are then active and the free list is empty. After \<open>releaseAll\<close>, or after
  releasing the twelve one by one, the active list is empty and the free list holds
  twelve instances.
\<close>

theorem acquire_twelve_from_pool_of_ten:
  fixes bs :: "ref \<Rightarrow> Mesh" and ls :: "ref \<Rightarrow> Label" and cs :: "nat list"
  defines "s0 \<equiv> initialize 10 (fresh_state bs ls)"
  defines "s12 \<equiv> snd (acquire_all cs s0)"
  assumes "length cs = 12"
  shows "BallPool.pool (ballPool s0) = [0, 2, 4, 6, 8, 10, 12, 14, 16, 18] \<and>
         BallPool.active (ballPool s0) = [] \<and>
         fst (acquire_all cs s0) = [18, 16, 14, 12, 10, 8, 6, 4, 2, 0, 20, 22] \<and>
         built (snd (acquire_all (take 10 cs) s0)) = built s0 \<and>
         built s12 = built s0 @ [BallBuilt 20, BallBuilt 22] \<and>
         BallPool.pool (ballPool s12) = [] \<and>
         BallPool.active (ballPool s12) = [18, 16, 14, 12, 10, 8, 6, 4, 2, 0, 20, 22] \<and>
         BallPool.active (ballPool (releaseAll s12)) = [] \<and>
         length (BallPool.pool (ballPool (releaseAll s12))) = 12 \<and>
         BallPool.active
           (ballPool (foldl (\<lambda>s b. release b s) s12 (fst (acquire_all cs s0)))) = [] \<and>
         length (BallPool.pool
           (ballPool (foldl (\<lambda>s b. release b s) s12 (fst (acquire_all cs s0))))) = 12"
proof -
  let ?xs = "take 10 cs" and ?ys = "drop 10 cs"
  let ?old = "[18, 16, 14, 12, 10, 8, 6, 4, 2, 0] :: ref list"
  have lx: "length ?xs = length ?old" and ly: "length ?ys = 2" using assms(3) by simp_all
  have pool0: "BallPool.pool (ballPool s0) = [0, 2, 4, 6, 8, 10, 12, 14, 16, 18]"
    and act0: "BallPool.active (ballPool s0) = []"
    and next0: "nextRef s0 = 20"
    unfolding s0_def by (rule initialize_10)+
  have p0: "BallPool.pool (ballPool s0) = [] @ rev ?old" by (simp add: pool0)
  note a = acquire_all_pop [OF p0 lx]
  let ?s10 = "snd (acquire_all ?xs s0)"
  have e10: "BallPool.pool (ballPool ?s10) = []" by (simp add: a)
  note b = acquire_all_new [OF e10, of ?ys]
  have n10: "nextRef ?s10 = 20" by (simp add: a next0)
  have b10: "built ?s10 = built s0" by (simp add: a)
  have a10: "BallPool.active (ballPool ?s10) = ?old" by (simp add: a act0)
  have two: "[0 ..< length cs - 10] = [0, 1]" by (simp add: assms(3) upt_rec)
  have split: "acquire_all cs s0 =
      (fst (acquire_all ?xs s0) @ fst (acquire_all ?ys ?s10), snd (acquire_all ?ys ?s10))"
    using acquire_all_append [of ?xs ?ys s0] by simp
  have rs: "fst (acquire_all cs s0) = ?old @ [20, 22]"
    by (simp add: split a b next0 two)
  have s12: "s12 = snd (acquire_all ?ys ?s10)" by (simp add: s12_def split)
  have act: "BallPool.active (ballPool s12) = ?old @ [20, 22]"
    and pl: "BallPool.pool (ballPool s12) = []"
    and bl: "built s12 = built s0 @ [BallBuilt 20, BallBuilt 22]"
    by (simp_all add: s12 b n10 two b10 a10 e10)
  have f: "BallPool.active (ballPool s12) = (?old @ [20, 22]) @ []" by (simp add: act)
  note r = release_fold [OF f]
  have ra: "releaseAll s12 = foldl (\<lambda>s b. release b s) s12 (?old @ [20, 22])"
    by (simp only: releaseAll_def act)
  show ?thesis
    using r by (simp add: rs ra act pl bl b10 pool0 act0)
qed

theorem acquire_twelve_from_pool_of_ten_witness:
  "fst (acquire_all [1, 2, 3, 4, 5, 6, 7, 8, 9, 10, 11, 12] (initialize 10 start_state))
     = [18, 16, 14, 12, 10, 8, 6, 4, 2, 0, 20, 22] \<and>
   length (BallPool.pool (ballPool (releaseAll
     (snd (acquire_all [1, 2, 3, 4, 5, 6, 7, 8, 9, 10, 11, 12] (initialize 10 start_state))))))
     = 12"
  using acquire_twelve_from_pool_of_ten
    [of "[1, 2, 3, 4, 5, 6, 7, 8, 9, 10, 11, 12]" "\<lambda>r. new_ball 0" "\<lambda>r. blank_label"]
  by (simp add: start_state_def del: acquire_all.simps)

section \<open>Properties of the selection feedback\<close>

lemma selection_complete_ball:
  "scale (balls (selection_complete b orig w) b) = vec 1 1 1"
  "position (balls (selection_complete b orig w) b) = orig"
  "emissiveIntensity (material (balls (selection_complete b orig w) b)) =
     (case emissiveIntensity (material (balls w b)) of
        None \<Rightarrow> None | Some v \<Rightarrow> Some (rnd (5 / 100)))"
  by (simp_all add: selection_complete_def Let_def split: option.split)

lemma selection_update_emissive_defined:
  "(emissiveIntensity (material (balls (selection_update b c s orig p e w) b)) = None)
     = (emissiveIntensity (material (balls w b)) = None)"
  by (simp add: selection_update_def Let_def split: number.split)

lemma Math_random_balls [simp]: "balls (snd (Math_random w)) = balls w"
  by (simp add: Math_random_def)

lemma burst_loop_balls:
  "balls (snd (snd (burst_loop n p (vs, vels, w)))) = balls w"
  by (induction n arbitrary: vs vels w) (simp_all add: split_beta Let_def)

lemma burst_update_balls [simp]: "balls (burst_update r p e w) = balls w"
  by (simp add: burst_update_def Let_def split_beta)

lemma burst_complete_balls [simp]: "balls (burst_complete r w) = balls w"
  by (simp add: burst_complete_def)

lemma visit_world_burst_balls:
  "updateFn a = burst_update r \<Longrightarrow> onComplete a = Some (burst_complete r) \<Longrightarrow>
     balls (visit_world now a w) = balls w"
  by (simp add: visit_world_def Let_def)

lemma driver_inv_world [simp]: "driver_inv (m\<lparr>world := w\<rparr>) = driver_inv m"
  by (simp add: driver_inv_def)

lemma emissive_case_cong:
  "(emissiveIntensity (material x) = None) = (emissiveIntensity (material y) = None) \<Longrightarrow>
     (case emissiveIntensity (material x) of None \<Rightarrow> None | Some v \<Rightarrow> Some c)
       = (case emissiveIntensity (material y) of None \<Rightarrow> None | Some v \<Rightarrow> Some (c::real))"
  by (cases "emissiveIntensity (material x)"; cases "emissiveIntensity (material y)") simp_all

text \<open>The tick that completes a selection animation standing last in the active list.\<close>

lemma completing_tick:
  fixes m :: "scene manager"
  assumes act: "activeAnimations m = pre @ [a]"
    and pre: "\<forall>x \<in> set pre. \<exists>r. updateFn x = burst_update r \<and> onComplete x = Some (burst_complete r)"
    and upd: "updateFn a = selection_update b c s orig"
    and oc: "onComplete a = Some (selection_complete b orig)"
    and a: "\<not> cancelled a" "duration a = Fin 500" "startTime a + 500 \<le> now"
  shows "scale (balls (world (update now m)) b) = vec 1 1 1"
    and "position (balls (world (update now m)) b) = orig"
    and "emissiveIntensity (material (balls (world (update now m)) b)) =
           (case emissiveIntensity (material (balls (world m) b)) of
              None \<Rightarrow> None | Some v \<Rightarrow> Some (rnd (5 / 100)))"
    and "CompleteCall (aid a) \<in> set (calls (update now m))"
proof -
  have p1: "progress_at now a = Fin 1"
    using a(2,3) by (intro progress_complete [where d = 500]) simp_all
  have keep: "balls (foldl (\<lambda>w x. visit_world now x w) w pre) = balls w" for w
    using pre
  proof (induction pre arbitrary: w)
    case Nil
    then show ?case by simp
  next
    case (Cons x xs)
    then obtain r where "updateFn x = burst_update r" "onComplete x = Some (burst_complete r)"
      by auto
    then have "balls (visit_world now x w) = balls w" by (rule visit_world_burst_balls)
    with Cons show ?case by simp
  qed
  let ?w1 = "foldl (\<lambda>w x. visit_world now x w) (world m) pre"
  let ?w2 = "selection_update b c s orig (Fin 1) (now - startTime a) ?w1"
  have w: "world (update now m) = selection_complete b orig ?w2"
    using a(1) by (simp add: update_fields act visit_world_def p1 upd oc)
  have e: "(emissiveIntensity (material (balls ?w2 b)) = None)
      = (emissiveIntensity (material (balls (world m) b)) = None)"
    by (simp add: selection_update_emissive_defined keep)
  show "scale (balls (world (update now m)) b) = vec 1 1 1"
    and "position (balls (world (update now m)) b) = orig"
    by (simp_all only: w selection_complete_ball)
  show "emissiveIntensity (material (balls (world (update now m)) b)) =
           (case emissiveIntensity (material (balls (world m) b)) of
              None \<Rightarrow> None | Some v \<Rightarrow> Some (rnd (5 / 100)))"
    by (simp only: w selection_complete_ball(3) emissive_case_cong [OF e])
  show "CompleteCall (aid a) \<in> set (calls (update now m))"
    using a(1) by (simp add: update_fields act visit_calls_def p1 oc)
qed

lemma burst_on_idle:
  fixes m :: "scene manager" and p :: Vector3 and c :: nat and t :: int
  assumes "\<not> isRunning m" and "activeAnimations m = []"
  defines "m' \<equiv> snd (createParticleBurst p c t t m)"
  shows "\<exists>r ab. activeAnimations m' = [ab] \<and> updateFn ab = burst_update r \<and>
           onComplete ab = Some (burst_complete r)"
    and "isRunning m'"
    and "balls (world m') = balls (world m)"
proof -
  obtain vertices vels w1 where l: "burst_loop 30 p ([], [], world m) = (vertices, vels, w1)"
    by (metis prod_cases3)
  have b1: "balls w1 = balls (world m)"
    using burst_loop_balls [of 30 p "[]" "[]" "world m"] by (simp add: l)
  let ?cloud = "\<lparr>positions = map fround vertices, needsUpdate = False, pointsColor = c,
                   pointsSize = rnd (3 / 10), transparent = True, opacity = 1,
                   geometryDisposed = False, materialDisposed = False, velocities = vels\<rparr>"
  let ?w2 = "w1\<lparr>points := (points w1)(nextRef w1 := ?cloud),
                  nextRef := Suc (nextRef w1),
                  sceneChildren := sceneChildren w1 @ [nextRef w1]\<rparr>"
  let ?ab = "\<lparr>aid = nextObj m, startTime = t, duration = Fin 800,
               updateFn = burst_update (nextRef w1),
               onComplete = Some (burst_complete (nextRef w1)), cancelled = False\<rparr>"
  have m': "m' = update t (m\<lparr>world := ?w2, activeAnimations := [?ab],
                             nextObj := Suc (nextObj m), isRunning := True\<rparr>)"
    using assms(1,2) by (simp add: m'_def createParticleBurst_def l Let_def add_stopped)
  have st: "stays t ?ab" by (simp add: stays_def progress_at_def to_number_0)
  have "activeAnimations m' = [?ab]" by (simp add: m' update_fields st)
  then show "\<exists>r ab. activeAnimations m' = [ab] \<and> updateFn ab = burst_update r \<and>
           onComplete ab = Some (burst_complete r)"
    by (intro exI [of _ "nextRef w1"] exI [of _ ?ab]) simp
  show "isRunning m'" by (simp add: m' update_driver st)
  show "balls (world m') = balls (world m)"
    by (simp add: m' update_fields visit_world_def Let_def b1)
qed

lemma driver_inv_burst:
  "driver_inv m \<Longrightarrow> driver_inv (snd (createParticleBurst p c t t' m))"
  by (simp add: createParticleBurst_def split_beta Let_def driver_inv_add)

lemma constructor_idle:
  "\<not> isRunning (constructor w)" "activeAnimations (constructor w) = []"
  "world (constructor w) = w" "nextObj (constructor w) = 0"
  by (simp_all add: constructor_def)

lemma selection_feedback_run:
  fixes w0 :: scene and b :: ref and isCorrect :: bool and t :: int
  defines "m1 \<equiv> snd (animateBallSelection b isCorrect t t t t (constructor w0))"
  assumes "t + 500 \<le> now"
  shows "scale (balls (world (frame now m1)) b) = vec 1 1 1 \<and>
         position (balls (world (frame now m1)) b) = position (balls w0 b) \<and>
         emissiveIntensity (material (balls (world (frame now m1)) b)) =
           (case emissiveIntensity (material (balls w0 b)) of
              None \<Rightarrow> None | Some v \<Rightarrow> Some (rnd (5 / 100))) \<and>
         CompleteCall (fst (animateBallSelection b isCorrect t t t t (constructor w0)))
           \<in> set (calls (frame now m1))"
proof -
  let ?s = "vx (scale (balls w0 b))" and ?orig = "position (balls w0 b)"
  let ?M = "if isCorrect
            then snd (createParticleBurst (position (balls w0 b)) 0xFFD700 t t (constructor w0))
            else constructor w0"
  let ?a = "\<lparr>aid = nextObj ?M, startTime = t, duration = Fin 500,
              updateFn = selection_update b isCorrect ?s ?orig,
              onComplete = Some (selection_complete b ?orig), cancelled = False\<rparr>"
  have reg: "animateBallSelection b isCorrect t t t t (constructor w0)
      = add (selection_update b isCorrect ?s ?orig) (Fin 500)
          (Some (selection_complete b ?orig)) t t ?M"
    by (simp add: animateBallSelection_def Let_def constructor_idle)
  have m1eq: "m1 = snd (add (selection_update b isCorrect ?s ?orig) (Fin 500)
          (Some (selection_complete b ?orig)) t t ?M)"
    by (simp only: m1_def reg)
  have dM: "driver_inv ?M"
    by (simp add: driver_inv_burst driver_inv_constructor)
  have d1: "driver_inv m1" unfolding m1_def reg using dM by (rule driver_inv_add)
  have st: "stays t ?a" by (simp add: stays_def progress_at_def to_number_0)
  have h: "fst (animateBallSelection b isCorrect t t t t (constructor w0)) = aid ?a"
    by (simp add: reg add_def Let_def)
  have "\<exists>pre. activeAnimations m1 = pre @ [?a] \<and>
      (\<forall>x \<in> set pre. \<exists>r. updateFn x = burst_update r \<and> onComplete x = Some (burst_complete r)) \<and>
      (emissiveIntensity (material (balls (world m1) b)) = None)
        = (emissiveIntensity (material (balls w0 b)) = None)"
  proof (cases isCorrect)
    case False
    then have m1: "m1 = update t ((constructor w0)\<lparr>activeAnimations := [?a],
        nextObj := Suc 0, isRunning := True\<rparr>)"
      unfolding m1eq by (simp add: add_stopped constructor_idle)
    have "activeAnimations m1 = [] @ [?a]" using st False by (simp add: m1 update_fields)
    moreover have "(emissiveIntensity (material (balls (world m1) b)) = None)
        = (emissiveIntensity (material (balls w0 b)) = None)"
      using False
      by (simp add: m1 update_fields visit_world_def Let_def constructor_idle
          selection_update_emissive_defined progress_at_def to_number_0)
    ultimately show ?thesis by (intro exI [of _ "[]"]) simp
  next
    case True
    note bi = burst_on_idle [where m = "constructor w0" and p = ?orig and c = "0xFFD700"
        and t = t, OF constructor_idle(1,2)]
    from bi(1) obtain r ab where
      ab: "activeAnimations ?M = [ab]" "updateFn ab = burst_update r"
        "onComplete ab = Some (burst_complete r)"
      using True by auto
    have run: "isRunning ?M" using bi(2) True by simp
    have bw: "balls (world ?M) = balls w0" using bi(3) True by (simp add: constructor_idle)
    have m1: "m1 = ?M\<lparr>activeAnimations := activeAnimations ?M @ [?a],
        nextObj := Suc (nextObj ?M)\<rparr>"
      unfolding m1eq by (simp only: add_running [OF run] snd_conv)
    have "activeAnimations m1 = [ab] @ [?a]" by (simp add: m1 ab(1))
    moreover have "(emissiveIntensity (material (balls (world m1) b)) = None)
        = (emissiveIntensity (material (balls w0 b)) = None)"
      by (simp add: m1 bw)
    moreover have "\<forall>x \<in> set [ab]. \<exists>r. updateFn x = burst_update r \<and>
        onComplete x = Some (burst_complete r)"
      using ab(2,3) by auto
    ultimately show ?thesis by (intro exI [of _ "[ab]"] conjI)
  qed
  then obtain pre where act: "activeAnimations m1 = pre @ [?a]"
    and pre: "\<forall>x \<in> set pre. \<exists>r. updateFn x = burst_update r \<and> onComplete x = Some (burst_complete r)"
    and em: "(emissiveIntensity (material (balls (world m1) b)) = None)
        = (emissiveIntensity (material (balls w0 b)) = None)"
    by (elim exE conjE) (rule that)
  have ne: "activeAnimations m1 \<noteq> []" by (simp add: act)
  have fr: "frame now m1 = update now (m1\<lparr>pendingFrames := []\<rparr>)"
    using d1 ne by (rule frame_running)
  have act': "activeAnimations (m1\<lparr>pendingFrames := []\<rparr>) = pre @ [?a]" by (simp add: act)
  note ct = completing_tick [OF act' pre, where b = b and c = isCorrect and s = ?s
      and orig = ?orig and now = now]
  have a1: "updateFn ?a = selection_update b isCorrect ?s ?orig"
    and a2: "onComplete ?a = Some (selection_complete b ?orig)"
    and a3: "\<not> cancelled ?a" and a4: "duration ?a = Fin 500"
    and a5: "startTime ?a + 500 \<le> now"
    using assms(2) by simp_all
  note r = ct [OF a1 a2 a3 a4 a5]
  have e: "emissiveIntensity (material (balls (world (frame now m1)) b)) =
           (case emissiveIntensity (material (balls w0 b)) of
              None \<Rightarrow> None | Some v \<Rightarrow> Some (rnd (5 / 100)))"
    using r(3) emissive_case_cong [OF em, of "rnd (5 / 100)"] by (simp add: fr)
  show ?thesis
    using r(1,2,4) e by (simp add: fr h)
qed


text \<open>
  Claim C4, as amended. Register the selection feedback for a ball on an idle manager,
  for either outcome, and let a frame callback run 500 ms or more later. After it the
  position of the ball is the position it had at registration, its scale is
  \<open>(1, 1, 1)\<close>, and its emissive intensity, if the material has one, is 0.05; the
  completion callback has run. Whatever state the scene is in, that callback sets these
  three values. The scale and the intensity are the resting values of a pooled ball, not
  the values before the effect.
\<close>

theorem selection_feedback_resets_ball:
  fixes w0 :: scene and b :: ref and isCorrect :: bool and t :: int
  assumes "t + 500 \<le> now"
  shows "scale (balls (world (frame now
            (snd (animateBallSelection b isCorrect t t t t (constructor w0))))) b) = vec 1 1 1 \<and>
         position (balls (world (frame now
            (snd (animateBallSelection b isCorrect t t t t (constructor w0))))) b)
           = position (balls w0 b) \<and>
         emissiveIntensity (material (balls (world (frame now
            (snd (animateBallSelection b isCorrect t t t t (constructor w0))))) b)) =
           (case emissiveIntensity (material (balls w0 b)) of
              None \<Rightarrow> None | Some v \<Rightarrow> Some (rnd (5 / 100))) \<and>
         CompleteCall (fst (animateBallSelection b isCorrect t t t t (constructor w0)))
           \<in> set (calls (frame now
                (snd (animateBallSelection b isCorrect t t t t (constructor w0))))) \<and>
         (\<forall>w orig.
            scale (balls (selection_complete b orig w) b) = vec 1 1 1 \<and>
            position (balls (selection_complete b orig w) b) = orig \<and>
            emissiveIntensity (material (balls (selection_complete b orig w) b)) =
              (case emissiveIntensity (material (balls w b)) of
                 None \<Rightarrow> None | Some v \<Rightarrow> Some (rnd (5 / 100))))"
  using selection_feedback_run [OF assms, of b isCorrect w0]
  by (simp add: selection_complete_ball)

lemma big_scene_ball:
  "scale (balls big_scene 0) = vec 2 2 2"
  "position (balls big_scene 0) = vec 0 0 0"
  "emissiveIntensity (material (balls big_scene 0)) = Some (rnd (5 / 100))"
  by (simp_all add: big_scene_def state.defs scene.defs start_state_def fresh_state_def
      new_ball_def)

theorem selection_feedback_resets_ball_witness:
  "scale (balls (world (frame 500
      (snd (animateBallSelection 0 True 0 0 0 0 (constructor big_scene))))) 0) = vec 1 1 1 \<and>
   position (balls (world (frame 500
      (snd (animateBallSelection 0 True 0 0 0 0 (constructor big_scene))))) 0) = vec 0 0 0 \<and>
   emissiveIntensity (material (balls (world (frame 500
      (snd (animateBallSelection 0 True 0 0 0 0 (constructor big_scene))))) 0))
     = Some (rnd (5 / 100))"
  using selection_feedback_resets_ball [of 0 500 0 True big_scene]
  by (simp add: big_scene_ball)

text \<open>
  Claim C4 as stated fails for the scale: a ball of scale \<open>(2, 2, 2)\<close> is left at
  \<open>(1, 1, 1)\<close> by a completed feedback for an incorrect selection, which never
  changed its scale before.
\<close>

theorem selection_feedback_scale_counterexample:
  "scale (balls big_scene 0) = vec 2 2 2 \<and>
   scale (balls (world (frame 500
      (snd (animateBallSelection 0 False 0 0 0 0 (constructor big_scene))))) 0) = vec 1 1 1 \<and>
   vec 1 1 1 \<noteq> vec 2 2 2"
  using selection_feedback_run [of 0 500 0 False big_scene]
  by (simp add: big_scene_ball vec_def)

end
